theory Spec2Isabelle
  imports Main
begin

section \<open>The Go library functions the server calls\<close>

text \<open>
  Go strings are byte sequences; they are modelled as \<open>string\<close> (a list of 8-bit
  characters). The server is modelled on a Unix host, where the path separator of
  package \<open>path/filepath\<close> is \<open>/\<close> and there are no volume names.
\<close>

subsection \<open>Package strings\<close>

text \<open>\<open>strings.HasSuffix\<close>:
  \<^verbatim>\<open>len(s) >= len(suffix) && s[len(s)-len(suffix):] == suffix\<close>\<close>

definition HasSuffix :: "string \<Rightarrow> string \<Rightarrow> bool" where
  "HasSuffix s suffix =
     (length s \<ge> length suffix \<and> drop (length s - length suffix) s = suffix)"

definition isASCII :: "string \<Rightarrow> bool" where
  "isASCII s = list_all (\<lambda>c. (of_char c :: nat) < 128) s"

definition lowerByte :: "char \<Rightarrow> char" where
  "lowerByte c =
     (if (65::nat) \<le> of_char c \<and> (of_char c :: nat) \<le> 90
      then char_of (of_char c + (32::nat)) else c)"

text \<open>
  \<open>strings.ToLower\<close> lower-cases a string of ASCII bytes byte by byte
  (\<open>'A'..'Z'\<close> to \<open>'a'..'z'\<close>). A string with a byte \<open>\<ge> 0x80\<close> goes through
  \<open>strings.Map(unicode.ToLower, s)\<close>, which depends on the Unicode tables; that
  function is the parameter \<open>um\<close>, so that every result below holds whatever the
  tables are.
\<close>

definition ToLower :: "(string \<Rightarrow> string) \<Rightarrow> string \<Rightarrow> string" where
  "ToLower um s = (if isASCII s then map lowerByte s else um s)"

subsection \<open>Package path/filepath\<close>

text \<open>
  \<open>filepath.Clean\<close>, from its source: \<open>rest\<close> is the part of the path not yet read
  (\<open>path[r:]\<close>), \<open>out\<close> the bytes written so far (\<open>out.w\<close> is its length), and
  \<open>dotdot\<close> the index in \<open>out\<close> where backtracking must stop.

  \<open>backtrack\<close> is the inner loop of the \<open>..\<close> case,
  \<^verbatim>\<open>out.w--; for out.w > dotdot && !os.IsPathSeparator(out.index(out.w)) { out.w-- }\<close>:
  it removes the last byte, and goes on while more than \<open>dotdot\<close> bytes are left and
  the byte removed was no separator.
\<close>

function backtrack :: "nat \<Rightarrow> string \<Rightarrow> string" where
  "backtrack dotdot out =
     (if out = [] then []
      else if length (butlast out) > dotdot \<and> last out \<noteq> CHR ''/''
      then backtrack dotdot (butlast out)
      else butlast out)"
  by pat_completeness auto
termination
  by (relation "measure (\<lambda>(dotdot, out). length out)") auto

declare backtrack.simps [simp del]

text \<open>
  The main loop, one case of the \<open>switch\<close> per branch: a separator is skipped; a \<open>.\<close>
  element is skipped; a \<open>..\<close> element backtracks when it can, is appended when the
  path is not rooted, and is dropped otherwise; any other element is copied, after a
  separator when something was written before.
\<close>

function clean_loop :: "bool \<Rightarrow> string \<Rightarrow> string \<Rightarrow> nat \<Rightarrow> string" where
  "clean_loop rooted [] out dotdot = out"
| "clean_loop rooted (c # cs) out dotdot =
     (if c = CHR ''/'' then clean_loop rooted cs out dotdot
      else if c = CHR ''.'' \<and> (cs = [] \<or> hd cs = CHR ''/'')
        then clean_loop rooted cs out dotdot
      else if c = CHR ''.'' \<and> cs \<noteq> [] \<and> hd cs = CHR ''.'' \<and>
              (tl cs = [] \<or> hd (tl cs) = CHR ''/'')
        then
          (if length out > dotdot then clean_loop rooted (tl cs) (backtrack dotdot out) dotdot
           else if \<not> rooted then
             clean_loop rooted (tl cs)
               ((if length out > 0 then out @ ''/'' else out) @ ''..'')
               (length ((if length out > 0 then out @ ''/'' else out) @ ''..''))
           else clean_loop rooted (tl cs) out dotdot)
      else
        clean_loop rooted (dropWhile (\<lambda>x. x \<noteq> CHR ''/'') (c # cs))
          ((if rooted \<and> length out \<noteq> 1 \<or> \<not> rooted \<and> length out \<noteq> 0
            then out @ ''/'' else out) @
           takeWhile (\<lambda>x. x \<noteq> CHR ''/'') (c # cs))
          dotdot)"
  by pat_completeness auto
termination
  by (relation "measure (\<lambda>(rooted, rest, out, dotdot). length rest)")
     (auto simp: length_dropWhile_le less_Suc_eq_le)

declare clean_loop.simps [simp del]

text \<open>
  The empty path becomes \<open>.\<close>; a rooted path starts with its separator written and
  \<open>dotdot = 1\<close>; an empty result becomes \<open>.\<close>.
\<close>

definition Clean :: "string \<Rightarrow> string" where
  "Clean path =
     (if path = [] then ''.''
      else
        let rooted = (hd path = CHR ''/'');
            out = (if rooted then clean_loop rooted (tl path) ''/'' 1
                   else clean_loop rooted path [] 0)
        in if out = [] then ''.'' else out)"

text \<open>
  \<open>filepath.Join\<close> of two elements: leading empty elements are ignored, the rest is
  joined with separators and cleaned; the result is empty when every element is.
\<close>

definition Join :: "string \<Rightarrow> string \<Rightarrow> string" where
  "Join a b =
     (if a \<noteq> [] then Clean (a @ ''/'' @ b)
      else if b \<noteq> [] then Clean b
      else [])"

text \<open>
  \<open>filepath.Ext\<close> scans from the end of the path: it stops with the empty string at
  a separator and returns the suffix from a dot on. \<open>ext_scan\<close> is that loop on the
  reversed path, \<open>acc\<close> the bytes already passed.
\<close>

fun ext_scan :: "string \<Rightarrow> string \<Rightarrow> string" where
  "ext_scan [] acc = []"
| "ext_scan (c # cs) acc =
     (if c = CHR ''/'' then []
      else if c = CHR ''.'' then c # acc
      else ext_scan cs (c # acc))"

definition Ext :: "string \<Rightarrow> string" where
  "Ext p = ext_scan (rev p) []"

subsection \<open>Package os: the filesystem the server reads\<close>

datatype fs_error = ErrNotExist | ErrPermission | ErrOther string

datatype FileInfo = FileInfo (IsDir: bool)

text \<open>
  An open file: its bytes, and whether \<open>io.Copy\<close> from it to the response fails
  (a read error or a broken connection), after how many bytes and with which message.
\<close>

record File =
  contents :: string
  copy_error :: "(nat \<times> string) option"

text \<open>
  What the host gives the server: the results of \<open>os.Stat\<close> and \<open>os.Open\<close> at every
  path, and the Unicode lower-casing of \<open>ToLower\<close>.
\<close>

record platform =
  Stat :: "string \<Rightarrow> fs_error + FileInfo"
  Open :: "string \<Rightarrow> fs_error + File"
  unicodeLower :: "string \<Rightarrow> string"

fun error_text :: "fs_error \<Rightarrow> string" where
  "error_text ErrNotExist = ''no such file or directory''"
| "error_text ErrPermission = ''permission denied''"
| "error_text (ErrOther msg) = msg"

text \<open>The text of an \<open>*os.PathError\<close>, as \<open>%v\<close> prints it.\<close>

definition PathError :: "string \<Rightarrow> string \<Rightarrow> fs_error \<Rightarrow> string" where
  "PathError op path err = op @ '' '' @ path @ '': '' @ error_text err"

subsection \<open>Package net/http: the response writer\<close>

text \<open>
  The response as the handler builds it: the header map, the status code once
  \<open>WriteHeader\<close> has been called, and the body bytes written so far.
\<close>

record ResponseWriter =
  header :: "string \<rightharpoonup> string"
  status :: "nat option"
  body :: string

definition NewRecorder :: ResponseWriter where
  "NewRecorder = \<lparr>header = Map.empty, status = None, body = []\<rparr>"

definition HeaderSet :: "string \<Rightarrow> string \<Rightarrow> ResponseWriter \<Rightarrow> ResponseWriter" where
  "HeaderSet k v rw = rw\<lparr>header := (header rw)(k \<mapsto> v)\<rparr>"

text \<open>Only the first \<open>WriteHeader\<close> counts; a later call is ignored.\<close>

definition WriteHeader :: "nat \<Rightarrow> ResponseWriter \<Rightarrow> ResponseWriter" where
  "WriteHeader code rw = (if status rw = None then rw\<lparr>status := Some code\<rparr> else rw)"

text \<open>\<open>Write\<close> calls \<open>WriteHeader(http.StatusOK)\<close> first when no status was written.\<close>

definition Write :: "string \<Rightarrow> ResponseWriter \<Rightarrow> ResponseWriter" where
  "Write bs rw = (let rw' = WriteHeader 200 rw in rw'\<lparr>body := body rw' @ bs\<rparr>)"

text \<open>
  The status code the client receives: a handler that returns without having written
  a status has answered \<open>200\<close>.
\<close>

definition StatusCode :: "ResponseWriter \<Rightarrow> nat" where
  "StatusCode rw = (case status rw of None \<Rightarrow> 200 | Some code \<Rightarrow> code)"

text \<open>
  \<open>http.NotFound(w, r)\<close> is \<open>http.Error(w, "404 page not found", 404)\<close>: it sets two
  headers, writes the status and prints the message with a newline.
\<close>

definition NotFound :: "ResponseWriter \<Rightarrow> ResponseWriter" where
  "NotFound rw =
     Write (''404 page not found'' @ [CHR 0x0A])
       (WriteHeader 404
         (HeaderSet ''X-Content-Type-Options'' ''nosniff''
           (HeaderSet ''Content-Type'' ''text/plain; charset=utf-8'' rw)))"

text \<open>
  \<open>io.Copy(w, file)\<close>: the bytes that reach the response are the whole file, or its
  first \<open>n\<close> bytes when the copy fails there. Nothing is written when there are none.
\<close>

definition copied :: "File \<Rightarrow> string" where
  "copied f = (case copy_error f of None \<Rightarrow> contents f | Some (n, msg) \<Rightarrow> take n (contents f))"

definition Copy :: "ResponseWriter \<Rightarrow> File \<Rightarrow> ResponseWriter" where
  "Copy rw f = (if copied f = [] then rw else Write (copied f) rw)"

section \<open>The server\<close>

subsection \<open>config.go\<close>

record Config =
  RootDir :: string
  AddHtmlExtension :: bool
  EnableLogging :: bool
  NotFoundHandler :: "(string \<Rightarrow> string) option"

definition DefaultConfig :: Config where
  "DefaultConfig =
     \<lparr>RootDir = ''./public'', AddHtmlExtension = True, EnableLogging = True,
      NotFoundHandler = None\<rparr>"

subsection \<open>server.go\<close>

text \<open>
  The two loggers the constructors build: one writing to standard output, one writing
  to \<open>io.Discard\<close>.
\<close>

datatype Logger = StdoutLogger | DiscardLogger

record Server =
  config :: Config
  logger :: Logger

definition NewServer :: "string \<Rightarrow> Server" where
  "NewServer rootDir =
     \<lparr>config = \<lparr>RootDir = rootDir, AddHtmlExtension = True, EnableLogging = True,
                 NotFoundHandler = None\<rparr>,
      logger = StdoutLogger\<rparr>"

definition NewServerWithConfig :: "Config \<Rightarrow> Server" where
  "NewServerWithConfig cfg =
     \<lparr>config = cfg,
      logger = (if EnableLogging cfg then StdoutLogger else DiscardLogger)\<rparr>"

text \<open>
  The effects of handling one request: the response, the lines the logger printed
  (the message of each line, without the prefix and the time stamp), and the calls made
  to the filesystem, in order.
\<close>

datatype fs_call = CallStat string | CallOpen string | CallCopy string | CallClose string

record state =
  w :: ResponseWriter
  log_lines :: "string list"
  fs_calls :: "fs_call list"

definition start :: state where
  "start = \<lparr>w = NewRecorder, log_lines = [], fs_calls = []\<rparr>"

definition Printf :: "Logger \<Rightarrow> string \<Rightarrow> state \<Rightarrow> state" where
  "Printf lg msg st =
     (case lg of StdoutLogger \<Rightarrow> st\<lparr>log_lines := log_lines st @ [msg]\<rparr>
               | DiscardLogger \<Rightarrow> st)"

definition called :: "fs_call \<Rightarrow> state \<Rightarrow> state" where
  "called c st = st\<lparr>fs_calls := fs_calls st @ [c]\<rparr>"

definition getContentType :: "(string \<Rightarrow> string) \<Rightarrow> string \<Rightarrow> string" where
  "getContentType um ext0 =
     (let ext = ToLower um ext0 in
      if ext = ''.html'' \<or> ext = ''.htm'' then ''text/html''
      else if ext = ''.css'' then ''text/css''
      else if ext = ''.js'' then ''application/javascript''
      else if ext = ''.json'' then ''application/json''
      else if ext = ''.png'' then ''image/png''
      else if ext = ''.jpg'' \<or> ext = ''.jpeg'' then ''image/jpeg''
      else if ext = ''.gif'' then ''image/gif''
      else if ext = ''.svg'' then ''image/svg+xml''
      else if ext = ''.xml'' then ''application/xml''
      else if ext = ''.pdf'' then ''application/pdf''
      else if ext = ''.txt'' then ''text/plain''
      else [])"

definition tryServeFile :: "Server \<Rightarrow> platform \<Rightarrow> string \<Rightarrow> state \<Rightarrow> bool \<times> state" where
  "tryServeFile s pl fullPath st0 =
     (let st1 = called (CallStat fullPath) st0 in
      case Stat pl fullPath of
        Inl err \<Rightarrow> (False, st1)
      | Inr info \<Rightarrow>
          if IsDir info then (False, st1)
          else
            let st2 = called (CallOpen fullPath) st1 in
            (case Open pl fullPath of
               Inl err \<Rightarrow>
                 (False,
                  Printf (logger s)
                    (''Error opening file '' @ fullPath @ '': '' @ PathError ''open'' fullPath err)
                    st2)
             | Inr file \<Rightarrow>
                 let contentType = getContentType (unicodeLower pl) (Ext fullPath);
                     st3 = (if contentType \<noteq> []
                            then st2\<lparr>w := HeaderSet ''Content-Type'' contentType (w st2)\<rparr>
                            else st2);
                     st4 = Printf (logger s) (''Serving file: '' @ fullPath) st3;
                     st5 = called (CallCopy fullPath) (st4\<lparr>w := Copy (w st4) file\<rparr>);
                     st6 = (case copy_error file of
                              Some (n, msg) \<Rightarrow>
                                Printf (logger s)
                                  (''Error serving file '' @ fullPath @ '': '' @ msg) st5
                            | None \<Rightarrow> st5)
                 in (True, called (CallClose fullPath) st6)))"

text \<open>
  \<open>ServeHTTP\<close>; of the request only \<open>r.URL.Path\<close> is read, the argument \<open>urlPath\<close>.
\<close>

definition ServeHTTP :: "Server \<Rightarrow> platform \<Rightarrow> string \<Rightarrow> state \<Rightarrow> state" where
  "ServeHTTP s pl urlPath st0 =
     (let path0 = Clean urlPath;
          path1 = (if path0 = ''/'' then ''/index.html'' else path0);
          st1 = Printf (logger s) (''Handling request for: '' @ path1) st0;
          path = (if length path1 > 1 \<and> HasSuffix path1 ''/''
                  then take (length path1 - 1) path1 else path1);
          fullPath = Join (RootDir (config s)) path;
          (served1, st2) = tryServeFile s pl fullPath st1
      in if served1 then st2
         else
           let (served2, st3) =
                 (if AddHtmlExtension (config s) \<and> Ext path = []
                  then tryServeFile s pl (fullPath @ ''.html'') st2
                  else (False, st2))
           in if served2 then st3
              else
                let (served3, st4) =
                      (if HasSuffix urlPath ''/''
                       then tryServeFile s pl (Join fullPath ''index.html'') st3
                       else (False, st3))
                in if served3 then st4
                   else
                     let st5 = Printf (logger s) (''Not found: '' @ path) st4
                     in (case NotFoundHandler (config s) of
                           Some handler \<Rightarrow>
                             st5\<lparr>w := Write (handler path) (WriteHeader 404 (w st5))\<rparr>
                         | None \<Rightarrow> st5\<lparr>w := NotFound (w st5)\<rparr>))"

section \<open>Notions used to state the properties\<close>

subsection \<open>The elements of a path\<close>

text \<open>
  The elements of a path: the substrings between separators (some may be empty), read
  from the end of the path; \<open>push_byte\<close> puts one more byte in front of the first
  element.
\<close>

fun push_byte :: "char \<Rightarrow> string list \<Rightarrow> string list" where
  "push_byte c [] = [[c]]"
| "push_byte c (e # es) = (c # e) # es"

fun split_path :: "string \<Rightarrow> string list" where
  "split_path [] = [[]]"
| "split_path (c # cs) =
     (if c = CHR ''/'' then [] # split_path cs else push_byte c (split_path cs))"

fun join_path :: "string list \<Rightarrow> string" where
  "join_path [] = []"
| "join_path [e] = e"
| "join_path (e # es) = e @ ''/'' @ join_path es"

text \<open>
  \<open>filepath.Clean\<close> is documented by four rules, applied until none applies: replace
  multiple separators with a single one; eliminate each \<open>.\<close> element; eliminate each
  inner \<open>..\<close> element along with the element that is not \<open>..\<close> before it; eliminate
  \<open>..\<close> elements that begin a rooted path. \<open>clean_step\<close> is one step of its loop on
  whole elements, \<open>out\<close> the list of elements written so far:
  \<^item> an empty element (a doubled separator) and a \<open>.\<close> element are dropped;
  \<^item> a \<open>..\<close> element removes the last element written when there is one that is not
    itself \<open>..\<close> (Go: \<open>out.w > dotdot\<close>); otherwise it is kept when the path is not
    rooted and dropped when it is rooted;
  \<^item> any other element is appended.
\<close>

definition clean_step :: "bool \<Rightarrow> string list \<Rightarrow> string \<Rightarrow> string list" where
  "clean_step rooted out e =
     (if e = [] \<or> e = ''.'' then out
      else if e = ''..'' then
        (if out \<noteq> [] \<and> last out \<noteq> ''..'' then butlast out
         else if \<not> rooted then out @ [''..'']
         else out)
      else out @ [e])"

definition clean_elems :: "bool \<Rightarrow> string list \<Rightarrow> string list" where
  "clean_elems rooted es = foldl (clean_step rooted) [] es"

definition is_rooted :: "string \<Rightarrow> bool" where
  "is_rooted p = (p \<noteq> [] \<and> hd p = CHR ''/'')"

text \<open>
  The bytes that \<open>Clean\<close> has written for a list of elements, and the length of its
  leading \<open>..\<close> elements, the index \<open>dotdot\<close> of the loop.
\<close>

definition render :: "bool \<Rightarrow> string list \<Rightarrow> string" where
  "render r st = (if r then ''/'' else []) @ join_path st"

definition ddlen :: "bool \<Rightarrow> string list \<Rightarrow> nat" where
  "ddlen r st = length (render r (takeWhile (\<lambda>e. e = ''..'') st))"

subsection \<open>The request path and the candidates\<close>

text \<open>
  The path \<open>ServeHTTP\<close> works with: the cleaned URL path, \<open>/\<close> rewritten to
  \<open>/index.html\<close> (this is the path it logs first, \<open>logged_path\<close>), then without its
  trailing slash (\<open>request_path\<close>, the path joined onto the root and given to the
  not-found handler).
\<close>

definition request_path :: "string \<Rightarrow> string" where
  "request_path urlPath =
     (let path0 = Clean urlPath;
          path1 = (if path0 = ''/'' then ''/index.html'' else path0)
      in if length path1 > 1 \<and> HasSuffix path1 ''/''
         then take (length path1 - 1) path1 else path1)"

definition logged_path :: "string \<Rightarrow> string" where
  "logged_path urlPath = (if Clean urlPath = ''/'' then ''/index.html'' else Clean urlPath)"

text \<open>
  The three files \<open>ServeHTTP\<close> may try, and the list of those it does try when each
  one before has failed: the exact path; the path with \<open>.html\<close> appended, when the
  option is on and the request path has no extension; \<open>index.html\<close> under the exact
  path, when the URL path of the request ends with a slash.
\<close>

definition candidateA :: "Server \<Rightarrow> string \<Rightarrow> string" where
  "candidateA s urlPath = Join (RootDir (config s)) (request_path urlPath)"

definition candidateB :: "Server \<Rightarrow> string \<Rightarrow> string" where
  "candidateB s urlPath = candidateA s urlPath @ ''.html''"

definition candidateC :: "Server \<Rightarrow> string \<Rightarrow> string" where
  "candidateC s urlPath = Join (candidateA s urlPath) ''index.html''"

definition candidates :: "Server \<Rightarrow> string \<Rightarrow> string list" where
  "candidates s urlPath =
     [candidateA s urlPath] @
     (if AddHtmlExtension (config s) \<and> Ext (request_path urlPath) = []
      then [candidateB s urlPath] else []) @
     (if HasSuffix urlPath ''/'' then [candidateC s urlPath] else [])"

text \<open>
  A path that \<open>tryServeFile\<close> serves: \<open>os.Stat\<close> succeeds and reports no directory,
  and \<open>os.Open\<close> succeeds.
\<close>

definition servable :: "platform \<Rightarrow> string \<Rightarrow> bool" where
  "servable pl p =
     (case Stat pl p of
        Inl err \<Rightarrow> False
      | Inr info \<Rightarrow> \<not> IsDir info \<and> (case Open pl p of Inl err \<Rightarrow> False | Inr file \<Rightarrow> True))"

definition first_servable :: "platform \<Rightarrow> string list \<Rightarrow> string option" where
  "first_servable pl cs = List.find (servable pl) cs"

text \<open>Trying a list of paths in order, until one is served.\<close>

fun try_all :: "Server \<Rightarrow> platform \<Rightarrow> string list \<Rightarrow> state \<Rightarrow> bool \<times> state" where
  "try_all s pl [] st = (False, st)"
| "try_all s pl (c # cs) st =
     (case tryServeFile s pl c st of
        (True, st') \<Rightarrow> (True, st')
      | (False, st') \<Rightarrow> try_all s pl cs st')"

text \<open>The last block of \<open>ServeHTTP\<close>, reached when nothing was served.\<close>

definition not_found :: "Server \<Rightarrow> string \<Rightarrow> state \<Rightarrow> state" where
  "not_found s path st4 =
     (let st5 = Printf (logger s) (''Not found: '' @ path) st4
      in (case NotFoundHandler (config s) of
            Some handler \<Rightarrow> st5\<lparr>w := Write (handler path) (WriteHeader 404 (w st5))\<rparr>
          | None \<Rightarrow> st5\<lparr>w := NotFound (w st5)\<rparr>))"

definition not_found_w :: "Config \<Rightarrow> string \<Rightarrow> ResponseWriter \<Rightarrow> ResponseWriter" where
  "not_found_w cfg path rw =
     (case NotFoundHandler cfg of
        Some handler \<Rightarrow> Write (handler path) (WriteHeader 404 rw)
      | None \<Rightarrow> NotFound rw)"

subsection \<open>What a run did\<close>

text \<open>
  The paths given to \<open>os.Stat\<close>, in order, and the paths whose file was copied to the
  response.
\<close>

definition probed :: "state \<Rightarrow> string list" where
  "probed st = concat (map (\<lambda>c. case c of CallStat p \<Rightarrow> [p] | _ \<Rightarrow> []) (fs_calls st))"

definition served :: "state \<Rightarrow> string list" where
  "served st = concat (map (\<lambda>c. case c of CallCopy p \<Rightarrow> [p] | _ \<Rightarrow> []) (fs_calls st))"

text \<open>
  The filesystem calls and the log lines of one \<open>tryServeFile\<close> that fails, and of one
  that serves; the response after a file was served.
\<close>

definition failed_calls :: "platform \<Rightarrow> string \<Rightarrow> fs_call list" where
  "failed_calls pl p =
     (case Stat pl p of
        Inl err \<Rightarrow> [CallStat p]
      | Inr info \<Rightarrow> if IsDir info then [CallStat p] else [CallStat p, CallOpen p])"

definition served_calls :: "string \<Rightarrow> fs_call list" where
  "served_calls p = [CallStat p, CallOpen p, CallCopy p, CallClose p]"

definition lines_of :: "Logger \<Rightarrow> string list \<Rightarrow> string list" where
  "lines_of lg msgs = (case lg of StdoutLogger \<Rightarrow> msgs | DiscardLogger \<Rightarrow> [])"

definition failed_log :: "Server \<Rightarrow> platform \<Rightarrow> string \<Rightarrow> string list" where
  "failed_log s pl p =
     (case Stat pl p of
        Inl err \<Rightarrow> []
      | Inr info \<Rightarrow>
          if IsDir info then []
          else (case Open pl p of
                  Inl err \<Rightarrow>
                    lines_of (logger s)
                      [''Error opening file '' @ p @ '': '' @ PathError ''open'' p err]
                | Inr file \<Rightarrow> []))"

definition served_log :: "Server \<Rightarrow> platform \<Rightarrow> string \<Rightarrow> string list" where
  "served_log s pl p =
     lines_of (logger s)
       ((''Serving file: '' @ p) #
        (case Open pl p of
           Inl err \<Rightarrow> []
         | Inr file \<Rightarrow>
             (case copy_error file of
                Some (n, msg) \<Rightarrow> [''Error serving file '' @ p @ '': '' @ msg]
              | None \<Rightarrow> [])))"

definition serve_response :: "platform \<Rightarrow> string \<Rightarrow> ResponseWriter \<Rightarrow> ResponseWriter" where
  "serve_response pl p rw =
     (case Open pl p of
        Inl err \<Rightarrow> rw
      | Inr file \<Rightarrow>
          Copy (if getContentType (unicodeLower pl) (Ext p) \<noteq> []
                then HeaderSet ''Content-Type'' (getContentType (unicodeLower pl) (Ext p)) rw
                else rw) file)"

subsection \<open>Paths within a root directory\<close>

text \<open>
  The elements of a path that name something (not empty, not \<open>.\<close>), and the elements
  \<open>Clean\<close> keeps. A path lies within the root when both are rooted or both are
  relative, its elements start with the elements of the cleaned root, and no element
  after these is \<open>..\<close>.
\<close>

definition real_elems :: "string \<Rightarrow> string list" where
  "real_elems p = filter (\<lambda>e. e \<noteq> [] \<and> e \<noteq> ''.'') (split_path p)"

definition path_elems :: "string \<Rightarrow> string list" where
  "path_elems p = clean_elems (is_rooted p) (split_path p)"

definition within_root :: "string \<Rightarrow> string \<Rightarrow> bool" where
  "within_root root p =
     (is_rooted p = is_rooted (Clean root) \<and>
      (let re = real_elems (Clean root); pe = real_elems p
       in take (length re) pe = re \<and> ''..'' \<notin> set (drop (length re) pe)))"

text \<open>
  The shape of the element list \<open>Clean\<close> produces: elements without separator that
  are neither empty nor \<open>.\<close>, with \<open>..\<close> only at the front and only in a relative
  path.
\<close>

fun dd_shape :: "string list \<Rightarrow> bool" where
  "dd_shape [] = True"
| "dd_shape (e # es) = (if e = ''..'' then dd_shape es else ''..'' \<notin> set es)"

definition elem_ok :: "string \<Rightarrow> bool" where
  "elem_ok e = (e \<noteq> [] \<and> e \<noteq> ''.'' \<and> CHR ''/'' \<notin> set e)"

definition cleaned :: "bool \<Rightarrow> string list \<Rightarrow> bool" where
  "cleaned r out = ((\<forall>e\<in>set out. elem_ok e) \<and> dd_shape out \<and> (r \<longrightarrow> ''..'' \<notin> set out))"

subsection \<open>The specification's words\<close>


text \<open>
  The resolution as the specification's summary states it: the first of candidate A,
  candidate B (under its condition) and candidate C that \<open>os.Stat\<close> reports as an
  existing file that is no directory.
\<close>

definition existing_regular :: "platform \<Rightarrow> string \<Rightarrow> bool" where
  "existing_regular pl p = (case Stat pl p of Inl err \<Rightarrow> False | Inr info \<Rightarrow> \<not> IsDir info)"

definition claimed_candidates :: "Server \<Rightarrow> string \<Rightarrow> string list" where
  "claimed_candidates s urlPath =
     [candidateA s urlPath] @
     (if AddHtmlExtension (config s) \<and> Ext (request_path urlPath) = []
      then [candidateB s urlPath] else []) @
     [candidateC s urlPath]"

definition claimed_resolution :: "Server \<Rightarrow> platform \<Rightarrow> string \<Rightarrow> string option" where
  "claimed_resolution s pl urlPath =
     List.find (existing_regular pl) (claimed_candidates s urlPath)"

text \<open>
  The same filesystem with every path whose \<open>os.Stat\<close> fails, and every file whose
  \<open>os.Open\<close> fails, absent instead.
\<close>

definition errors_as_absent :: "platform \<Rightarrow> platform" where
  "errors_as_absent pl =
     pl\<lparr>Stat :=
          (\<lambda>p. case Stat pl p of
                 Inl err \<Rightarrow> Inl ErrNotExist
               | Inr info \<Rightarrow>
                   (case Open pl p of
                      Inl err \<Rightarrow> if IsDir info then Inr info else Inl ErrNotExist
                    | Inr file \<Rightarrow> Inr info))\<rparr>"

subsection \<open>Filesystems and configurations used as inputs\<close>

text \<open>
  A filesystem given by a table from paths to the results of \<open>os.Stat\<close> and
  \<open>os.Open\<close>; every other path does not exist.
\<close>

definition fs_with :: "(string \<times> (fs_error + FileInfo) \<times> (fs_error + File)) list \<Rightarrow> platform" where
  "fs_with entries =
     \<lparr>Stat = (\<lambda>p. case map_of entries p of Some (st, op) \<Rightarrow> st | None \<Rightarrow> Inl ErrNotExist),
      Open = (\<lambda>p. case map_of entries p of Some (st, op) \<Rightarrow> op | None \<Rightarrow> Inl ErrNotExist),
      unicodeLower = id\<rparr>"

definition regular_file :: "string \<Rightarrow> (fs_error + FileInfo) \<times> (fs_error + File)" where
  "regular_file bytes = (Inr (FileInfo False), Inr \<lparr>contents = bytes, copy_error = None\<rparr>)"

definition directory :: "(fs_error + FileInfo) \<times> (fs_error + File)" where
  "directory = (Inr (FileInfo True), Inr \<lparr>contents = [], copy_error = Some (0, ''is a directory'')\<rparr>)"

text \<open>
  \<open>createTestFiles\<close> of \<open>server_test.go\<close>: \<open>index.html\<close>, \<open>about.html\<close> and
  \<open>nested/index.html\<close> under the directory \<open>dir\<close>; \<open>tempDir\<close> stands for the
  temporary directory of the tests.
\<close>

definition tempDir :: string where
  "tempDir = ''/tmp/site''"

definition createTestFiles :: "string \<Rightarrow> platform" where
  "createTestFiles dir =
     fs_with
       [(dir, directory),
        (Join dir ''index.html'', regular_file ''<html><body>Index Page</body></html>''),
        (Join dir ''about.html'', regular_file ''<html><body>About Page</body></html>''),
        (Join dir ''nested'', directory),
        (Join (Join dir ''nested'') ''index.html'',
           regular_file ''<html><body>Nested Page</body></html>'')]"

text \<open>The custom configuration of \<open>TestServerWithCustomConfig\<close>.\<close>

definition customNotFound :: "string \<Rightarrow> string" where
  "customNotFound path = ''Custom 404: '' @ path @ '' not found''"

definition customConfig :: "string \<Rightarrow> Config" where
  "customConfig dir =
     \<lparr>RootDir = dir, AddHtmlExtension = False, EnableLogging = False,
      NotFoundHandler = Some customNotFound\<rparr>"

text \<open>
  A site with a file \<open>page\<close> that cannot be opened next to \<open>page.html\<close>; a site
  with a path \<open>secret\<close> that \<open>os.Stat\<close> is denied; the value \<open>Config{}\<close> of Go, whose
  root directory is the empty string; a host with a file outside of any site.
\<close>

definition locked_page :: platform where
  "locked_page =
     fs_with
       [(tempDir, directory),
        (Join tempDir ''page'', (Inr (FileInfo False), Inl ErrPermission)),
        (Join tempDir ''page.html'', regular_file ''<html><body>Page</body></html>'')]"

definition denied_stat :: platform where
  "denied_stat =
     fs_with
       [(tempDir, directory),
        (Join tempDir ''secret'', (Inl ErrPermission, Inl ErrPermission))]"

definition zeroConfig :: Config where
  "zeroConfig =
     \<lparr>RootDir = [], AddHtmlExtension = False, EnableLogging = False, NotFoundHandler = None\<rparr>"

definition host_files :: platform where
  "host_files = fs_with [(''/etc/passwd'', regular_file ''root:x:0:0:root:/root:/bin/sh'')]"

text \<open>
  A site whose file \<open>data\<close> can be opened but fails after four bytes of the copy,
  next to \<open>data.html\<close>.
\<close>

definition failing_copy :: platform where
  "failing_copy =
     fs_with
       [(tempDir, directory),
        (Join tempDir ''data'',
           (Inr (FileInfo False),
            Inr \<lparr>contents = ''0123456789'',
                 copy_error = Some (4, ''read /tmp/site/data: input/output error'')\<rparr>)),
        (Join tempDir ''data.html'', regular_file ''never served'')]"

section \<open>Lemmas\<close>

subsection \<open>The stages of ServeHTTP\<close>

lemma request_path_alt:
  "request_path urlPath =
     (if length (logged_path urlPath) > 1 \<and> HasSuffix (logged_path urlPath) ''/''
      then take (length (logged_path urlPath) - 1) (logged_path urlPath) else logged_path urlPath)"
  unfolding request_path_def logged_path_def Let_def ..

lemma ServeHTTP_staged:
  "ServeHTTP s pl urlPath st0 =
     (case tryServeFile s pl (candidateA s urlPath)
             (Printf (logger s) (''Handling request for: '' @ logged_path urlPath) st0) of
        (served1, st2) \<Rightarrow>
          if served1 then st2
          else
            (case (if AddHtmlExtension (config s) \<and> Ext (request_path urlPath) = []
                   then tryServeFile s pl (candidateB s urlPath) st2 else (False, st2)) of
               (served2, st3) \<Rightarrow>
                 if served2 then st3
                 else
                   (case (if HasSuffix urlPath ''/''
                          then tryServeFile s pl (candidateC s urlPath) st3 else (False, st3)) of
                      (served3, st4) \<Rightarrow>
                        if served3 then st4 else not_found s (request_path urlPath) st4)))"
  unfolding ServeHTTP_def candidateA_def candidateB_def candidateC_def not_found_def
    request_path_alt logged_path_def Let_def ..

subsection \<open>One call of tryServeFile, and a list of candidates\<close>

lemma Printf_fields [simp]:
  "w (Printf lg msg st) = w st"
  "fs_calls (Printf lg msg st) = fs_calls st"
  "log_lines (Printf StdoutLogger msg st) = log_lines st @ [msg]"
  "log_lines (Printf DiscardLogger msg st) = log_lines st"
  by (simp_all add: Printf_def split: Logger.splits)

lemma called_fields [simp]:
  "w (called c st) = w st"
  "fs_calls (called c st) = fs_calls st @ [c]"
  "log_lines (called c st) = log_lines st"
  by (simp_all add: called_def)

lemma tryServeFile_fst: "fst (tryServeFile s pl p st) = servable pl p"
  unfolding tryServeFile_def servable_def Let_def
  by (simp split: sum.splits)

lemma tryServeFile_w:
  "w (snd (tryServeFile s pl p st)) = (if servable pl p then serve_response pl p (w st) else w st)"
  unfolding tryServeFile_def servable_def serve_response_def Let_def
  by (simp split: sum.splits option.splits prod.splits)

lemma tryServeFile_calls:
  "fs_calls (snd (tryServeFile s pl p st)) =
     fs_calls st @ (if servable pl p then served_calls p else failed_calls pl p)"
  unfolding tryServeFile_def servable_def failed_calls_def served_calls_def Let_def
  by (simp split: sum.splits option.splits prod.splits)

lemma try_all_fst: "fst (try_all s pl cs st) = (first_servable pl cs \<noteq> None)"
proof (induction cs arbitrary: st)
  case Nil
  show ?case by (simp add: first_servable_def)
next
  case (Cons c cs)
  obtain b st' where t: "tryServeFile s pl c st = (b, st')" by (cases "tryServeFile s pl c st")
  have b: "b = servable pl c" using tryServeFile_fst [of s pl c st] t by simp
  show ?case using Cons.IH [of st'] t b by (simp add: first_servable_def)
qed

lemma try_all_w:
  "w (snd (try_all s pl cs st)) =
     (case first_servable pl cs of None \<Rightarrow> w st | Some c \<Rightarrow> serve_response pl c (w st))"
proof (induction cs arbitrary: st)
  case Nil
  show ?case by (simp add: first_servable_def)
next
  case (Cons c cs)
  obtain b st' where t: "tryServeFile s pl c st = (b, st')" by (cases "tryServeFile s pl c st")
  have b: "b = servable pl c" using tryServeFile_fst [of s pl c st] t by simp
  have w': "w st' = (if servable pl c then serve_response pl c (w st) else w st)"
    using tryServeFile_w [of s pl c st] t by simp
  show ?case using Cons.IH [of st'] t b w'
    by (cases "servable pl c") (simp_all add: first_servable_def split: option.splits)
qed

lemma try_all_calls:
  "fs_calls (snd (try_all s pl cs st)) =
     fs_calls st @ concat (map (failed_calls pl) (takeWhile (\<lambda>c. \<not> servable pl c) cs)) @
     (case first_servable pl cs of None \<Rightarrow> [] | Some c \<Rightarrow> served_calls c)"
proof (induction cs arbitrary: st)
  case Nil
  show ?case by (simp add: first_servable_def)
next
  case (Cons c cs)
  obtain b st' where t: "tryServeFile s pl c st = (b, st')" by (cases "tryServeFile s pl c st")
  have b: "b = servable pl c" using tryServeFile_fst [of s pl c st] t by simp
  have c': "fs_calls st' = fs_calls st @ (if servable pl c then served_calls c else failed_calls pl c)"
    using tryServeFile_calls [of s pl c st] t by simp
  show ?case using Cons.IH [of st'] t b c'
    by (cases "servable pl c") (simp_all add: first_servable_def split: option.splits)
qed

lemma ServeHTTP_try_all:
  "ServeHTTP s pl urlPath st0 =
     (case try_all s pl (candidates s urlPath)
             (Printf (logger s) (''Handling request for: '' @ logged_path urlPath) st0) of
        (ok, st') \<Rightarrow> if ok then st' else not_found s (request_path urlPath) st')"
  unfolding ServeHTTP_staged candidates_def
  by (simp split: prod.splits)

subsection \<open>Splitting and joining paths\<close>

lemma push_byte_not_Nil [simp]: "push_byte c es \<noteq> []"
  by (cases es) simp_all

lemma push_byte_append: "xs \<noteq> [] \<Longrightarrow> push_byte c (xs @ ys) = push_byte c xs @ ys"
  by (cases xs) simp_all

lemma split_path_nonempty [simp]: "split_path p \<noteq> []"
  by (cases p) simp_all

lemma split_path_append_sep:
  "split_path (a @ CHR ''/'' # b) = split_path a @ split_path b"
  by (induction a) (simp_all add: push_byte_append)

lemma push_byte_no_sep:
  "c \<noteq> CHR ''/'' \<Longrightarrow> \<forall>e\<in>set es. CHR ''/'' \<notin> set e \<Longrightarrow>
   \<forall>e\<in>set (push_byte c es). CHR ''/'' \<notin> set e"
  by (cases es) auto

lemma split_path_all_no_sep: "\<forall>e\<in>set (split_path p). CHR ''/'' \<notin> set e"
  by (induction p) (simp_all add: push_byte_no_sep)

lemma split_path_no_sep: "e \<in> set (split_path p) \<Longrightarrow> CHR ''/'' \<notin> set e"
  using split_path_all_no_sep by blast

lemma split_path_single: "CHR ''/'' \<notin> set e \<Longrightarrow> split_path e = [e]"
  by (induction e) auto

lemma split_join:
  "es \<noteq> [] \<Longrightarrow> \<forall>e\<in>set es. CHR ''/'' \<notin> set e \<Longrightarrow> split_path (join_path es) = es"
proof (induction es rule: join_path.induct)
  case 1
  then show ?case by simp
next
  case (2 e)
  then show ?case by (simp add: split_path_single)
next
  case (3 e v va)
  have "split_path (join_path (e # v # va)) = split_path (e @ CHR ''/'' # join_path (v # va))"
    by simp
  also have "\<dots> = split_path e @ split_path (join_path (v # va))"
    by (rule split_path_append_sep)
  also have "\<dots> = [e] @ (v # va)" using 3 by (simp add: split_path_single)
  finally show ?case by simp
qed

lemma join_path_Nil_iff: "\<forall>e\<in>set es. e \<noteq> [] \<Longrightarrow> join_path es = [] \<longleftrightarrow> es = []"
  by (induction es rule: join_path.induct) simp_all

lemma join_path_snoc_append:
  "join_path (xs @ [e]) @ t = join_path (xs @ [e @ t])"
  by (induction xs rule: join_path.induct) simp_all

lemma hd_join_path: "es \<noteq> [] \<Longrightarrow> hd es \<noteq> [] \<Longrightarrow> hd (join_path es) = hd (hd es)"
  by (induction es rule: join_path.induct) simp_all

lemma join_path_not_Nil: "es \<noteq> [] \<Longrightarrow> last es \<noteq> [] \<Longrightarrow> join_path es \<noteq> []"
  by (induction es rule: join_path.induct) simp_all

lemma last_join_path: "es \<noteq> [] \<Longrightarrow> last es \<noteq> [] \<Longrightarrow> last (join_path es) = last (last es)"
proof (induction es rule: join_path.induct)
  case (3 e v va)
  have "join_path (v # va) \<noteq> []" using 3(2,3) join_path_not_Nil [of "v # va"] by simp
  then show ?case using 3 by simp
qed simp_all

subsection \<open>The loop of Clean\<close>

lemma dd_shape_snoc: "dd_shape xs \<Longrightarrow> e \<noteq> ''..'' \<Longrightarrow> dd_shape (xs @ [e])"
  by (induction xs) auto

lemma dd_shape_butlast: "dd_shape xs \<Longrightarrow> dd_shape (butlast xs)"
  by (induction xs) (auto dest: in_set_butlastD)

lemma dd_shape_snoc_dotdot:
  "dd_shape xs \<Longrightarrow> xs = [] \<or> last xs = ''..'' \<Longrightarrow> dd_shape (xs @ [''..''])"
proof (induction xs)
  case Nil
  then show ?case by simp
next
  case (Cons a xs)
  show ?case
  proof (cases "xs = []")
    case True
    then show ?thesis using Cons.prems by (auto split: if_splits)
  next
    case False
    then have l: "last xs = ''..''" using Cons.prems(2) by auto
    then have "''..'' \<in> set xs" using False last_in_set [of xs] by metis
    then have "a = ''..''" "dd_shape xs" using Cons.prems(1) by (auto split: if_splits)
    then show ?thesis using Cons.IH l by simp
  qed
qed

lemma dd_shape_before_dotdot:
  "dd_shape (acc @ ''..'' # ys) \<Longrightarrow> acc = [] \<or> last acc = ''..''"
  by (induction acc) (auto split: if_splits)

lemma dd_shape_no_dotdot: "''..'' \<notin> set xs \<Longrightarrow> dd_shape xs"
  by (induction xs) auto

lemma clean_step_cleaned:
  assumes "cleaned r out" "CHR ''/'' \<notin> set e"
  shows "cleaned r (clean_step r out e)"
proof -
  consider (skip) "e = [] \<or> e = ''.''" | (dd) "e = ''..''" | (plain) "e \<noteq> []" "e \<noteq> ''.''" "e \<noteq> ''..''"
    by blast
  then show ?thesis
  proof cases
    case skip
    then show ?thesis using assms by (auto simp: clean_step_def)
  next
    case dd
    show ?thesis
    proof (cases "out \<noteq> [] \<and> last out \<noteq> ''..''")
      case True
      then have "clean_step r out e = butlast out" using dd by (simp add: clean_step_def)
      then show ?thesis using assms(1) dd_shape_butlast [of out]
        by (auto simp: cleaned_def dest: in_set_butlastD)
    next
      case False
      show ?thesis
      proof (cases r)
        case True
        then have "clean_step r out e = out" using dd False by (auto simp: clean_step_def)
        then show ?thesis using assms(1) by simp
      next
        case nr: False
        then have "clean_step r out e = out @ [''..'']" using dd False by (auto simp: clean_step_def)
        moreover have "dd_shape (out @ [''..''])"
          using dd_shape_snoc_dotdot [of out] assms(1) False by (auto simp: cleaned_def)
        ultimately show ?thesis using assms(1) nr by (auto simp: cleaned_def elem_ok_def)
      qed
    qed
  next
    case plain
    then have "clean_step r out e = out @ [e]" by (simp add: clean_step_def)
    then show ?thesis using assms plain dd_shape_snoc [of out e]
      by (auto simp: cleaned_def elem_ok_def)
  qed
qed

lemma foldl_clean_step_cleaned:
  "cleaned r acc \<Longrightarrow> \<forall>e\<in>set es. CHR ''/'' \<notin> set e \<Longrightarrow> cleaned r (foldl (clean_step r) acc es)"
  by (induction es arbitrary: acc) (simp_all add: clean_step_cleaned)

lemma clean_elems_cleaned:
  "\<forall>e\<in>set es. CHR ''/'' \<notin> set e \<Longrightarrow> cleaned r (clean_elems r es)"
  unfolding clean_elems_def by (rule foldl_clean_step_cleaned) (simp_all add: cleaned_def)

lemma clean_elems_split_cleaned: "cleaned r (clean_elems r (split_path p))"
  by (rule clean_elems_cleaned) (simp add: split_path_no_sep)

lemma foldl_clean_step_keep:
  "\<forall>e\<in>set ys. e \<noteq> [] \<and> e \<noteq> ''.'' \<Longrightarrow> dd_shape (acc @ ys) \<Longrightarrow> (r \<longrightarrow> ''..'' \<notin> set ys)
   \<Longrightarrow> foldl (clean_step r) acc ys = acc @ ys"
proof (induction ys arbitrary: acc)
  case Nil
  then show ?case by simp
next
  case (Cons y ys)
  have step: "clean_step r acc y = acc @ [y]"
  proof (cases "y = ''..''")
    case True
    then have "acc = [] \<or> last acc = ''..''" using Cons.prems(2) dd_shape_before_dotdot by blast
    moreover have "\<not> r" using True Cons.prems(3) by simp
    ultimately show ?thesis using True by (auto simp: clean_step_def)
  next
    case False
    then show ?thesis using Cons.prems(1) by (simp add: clean_step_def)
  qed
  have "foldl (clean_step r) (acc @ [y]) ys = (acc @ [y]) @ ys"
    using Cons.prems by (intro Cons.IH) simp_all
  then show ?case using step by simp
qed

lemma clean_elems_cleaned_id: "cleaned r ce \<Longrightarrow> clean_elems r ce = ce"
  unfolding clean_elems_def
  using foldl_clean_step_keep [of ce "[]" r] by (auto simp: cleaned_def elem_ok_def)

lemma clean_elems_append:
  "clean_elems r (xs @ ys) = foldl (clean_step r) (clean_elems r xs) ys"
  by (simp add: clean_elems_def)

lemma clean_elems_Nil: "clean_elems r [] = []"
  by (simp add: clean_elems_def)

lemma clean_elems_Nil_Cons: "clean_elems r ([] # xs) = clean_elems r xs"
  by (simp add: clean_elems_def clean_step_def)

lemma clean_elems_dot_Cons: "clean_elems r (''.'' # xs) = clean_elems r xs"
  by (simp add: clean_elems_def clean_step_def)

lemma path_elems_cleaned: "cleaned (is_rooted p) (path_elems p)"
  unfolding path_elems_def by (rule clean_elems_split_cleaned)

lemma cleaned_elem_ok: "cleaned r es \<Longrightarrow> e \<in> set es \<Longrightarrow> elem_ok e"
  by (simp add: cleaned_def)

lemma cleaned_join_Nil_iff: "cleaned r es \<Longrightarrow> join_path es = [] \<longleftrightarrow> es = []"
  by (rule join_path_Nil_iff) (auto simp: cleaned_def elem_ok_def)

subsection \<open>The loop on bytes computes what the steps on elements compute\<close>

lemma join_path_snoc: "join_path (st @ [e]) = (if st = [] then e else join_path st @ ''/'' @ e)"
  by (induction st rule: join_path.induct) simp_all

lemma join_path_append:
  "ys \<noteq> [] \<Longrightarrow> join_path (xs @ ys) = (if xs = [] then join_path ys else join_path xs @ ''/'' @ join_path ys)"
  by (induction xs rule: join_path.induct) (simp_all, cases ys, simp_all)

lemma backtrack_sep:
  "e \<noteq> [] \<Longrightarrow> CHR ''/'' \<notin> set e \<Longrightarrow> d \<le> length base \<Longrightarrow>
   backtrack d (base @ CHR ''/'' # e) = base"
proof (induction e rule: rev_induct)
  case Nil
  then show ?case by simp
next
  case (snoc b e)
  have b: "b \<noteq> CHR ''/''" using snoc.prems(2) by auto
  have "backtrack d (base @ CHR ''/'' # e @ [b]) = backtrack d (base @ CHR ''/'' # e)"
    using b snoc.prems(3)
    by (subst backtrack.simps) (simp add: butlast_append)
  also have "\<dots> = base"
  proof (cases "e = []")
    case True
    then show ?thesis by (subst backtrack.simps) (simp add: butlast_append)
  next
    case False
    then show ?thesis using snoc by simp
  qed
  finally show ?case by simp
qed

lemma backtrack_start:
  "e \<noteq> [] \<Longrightarrow> CHR ''/'' \<notin> set e \<Longrightarrow> d = length base \<Longrightarrow> backtrack d (base @ e) = base"
proof (induction e rule: rev_induct)
  case Nil
  then show ?case by simp
next
  case (snoc b e)
  have b: "b \<noteq> CHR ''/''" using snoc.prems(2) by auto
  show ?case
  proof (cases "e = []")
    case True
    then show ?thesis using snoc.prems(3)
      by (subst backtrack.simps) (simp add: butlast_append)
  next
    case False
    have "backtrack d (base @ e @ [b]) = backtrack d (base @ e)"
      using b False snoc.prems(3)
      by (subst backtrack.simps) (simp add: butlast_append)
    then show ?thesis using snoc False by simp
  qed
qed

lemma dd_shape_all_dotdot:
  "dd_shape st \<Longrightarrow> st = [] \<or> last st = ''..'' \<Longrightarrow> takeWhile (\<lambda>e. e = ''..'') st = st"
proof (induction st)
  case Nil
  then show ?case by simp
next
  case (Cons a st)
  show ?case
  proof (cases "st = []")
    case True
    then show ?thesis using Cons.prems by simp
  next
    case False
    then have l: "last st = ''..''" using Cons.prems(2) by simp
    then have "''..'' \<in> set st" using False last_in_set [of st] by metis
    then have "a = ''..''" "dd_shape st" using Cons.prems(1) by (auto split: if_splits)
    then show ?thesis using Cons.IH l by simp
  qed
qed

lemma takeWhile_snoc_real:
  "e \<noteq> ''..'' \<Longrightarrow> takeWhile (\<lambda>e. e = ''..'') (st @ [e]) = takeWhile (\<lambda>e. e = ''..'') st"
  by (induction st) simp_all

lemma ddlen_snoc_real: "e \<noteq> ''..'' \<Longrightarrow> ddlen r (st @ [e]) = ddlen r st"
  by (simp add: ddlen_def takeWhile_snoc_real)

lemma ddlen_butlast: "st \<noteq> [] \<Longrightarrow> last st \<noteq> ''..'' \<Longrightarrow> ddlen r (butlast st) = ddlen r st"
  using ddlen_snoc_real [of "last st" r "butlast st"] by simp

lemma cleaned_join_not_Nil: "cleaned r st \<Longrightarrow> st \<noteq> [] \<Longrightarrow> join_path st \<noteq> []"
  using cleaned_join_Nil_iff by blast

lemma length_render_prefix: "length (render r xs) \<le> length (render r (xs @ ys))"
proof (cases "ys = []")
  case True
  then show ?thesis by simp
next
  case False
  then show ?thesis by (simp add: render_def join_path_append)
qed

lemma ddlen_le: "ddlen r st \<le> length (render r st)"
  using length_render_prefix [of r "takeWhile (\<lambda>e. e = ''..'') st" "dropWhile (\<lambda>e. e = ''..'') st"]
  by (simp add: ddlen_def)

lemma render_snoc:
  "cleaned r st \<Longrightarrow> render r (st @ [e]) = render r st @ (if st = [] then e else CHR ''/'' # e)"
  by (simp add: render_def join_path_snoc)

lemma length_render_gt:
  assumes "cleaned r st"
  shows "length (render r st) > ddlen r st \<longleftrightarrow> st \<noteq> [] \<and> last st \<noteq> ''..''"
proof (cases "st = [] \<or> last st = ''..''")
  case True
  have "dd_shape st" using assms by (simp add: cleaned_def)
  then have "takeWhile (\<lambda>e. e = ''..'') st = st" using True by (rule dd_shape_all_dotdot)
  then have "ddlen r st = length (render r st)" by (simp only: ddlen_def)
  then show ?thesis using True by auto
next
  case False
  then have st: "st = butlast st @ [last st]" by simp
  have e: "last st \<noteq> []"
    using False cleaned_elem_ok [OF assms, of "last st"] by (simp add: elem_ok_def)
  have "ddlen r st = ddlen r (butlast st)" using False ddlen_butlast by simp
  also have "\<dots> \<le> length (render r (butlast st))" by (rule ddlen_le)
  also have "\<dots> < length (render r (butlast st @ [last st]))"
    using e by (simp add: render_def join_path_snoc)
  finally show ?thesis using False st by simp
qed

lemma cleaned_butlast: "cleaned r st \<Longrightarrow> cleaned r (butlast st)"
  using dd_shape_butlast [of st] by (auto simp: cleaned_def dest: in_set_butlastD)

lemma backtrack_render_snoc:
  assumes "cleaned r (st' @ [e])" "e \<noteq> ''..''"
  shows "backtrack (ddlen r (st' @ [e])) (render r (st' @ [e])) = render r st'"
proof -
  have ok: "elem_ok e" using cleaned_elem_ok [OF assms(1), of e] by simp
  then have e: "e \<noteq> []" "CHR ''/'' \<notin> set e" by (simp_all add: elem_ok_def)
  have c': "cleaned r st'" using cleaned_butlast [OF assms(1)] by simp
  have d: "ddlen r (st' @ [e]) = ddlen r st'" using assms(2) by (rule ddlen_snoc_real)
  show ?thesis
  proof (cases "st' = []")
    case True
    have "ddlen r st' = length (render r st')" using True by (simp add: ddlen_def)
    then have b: "backtrack (ddlen r st') (render r st' @ e) = render r st'"
      using e by (intro backtrack_start) simp_all
    have rs: "render r (st' @ [e]) = render r st' @ e"
      using render_snoc [OF c', of e] True by simp
    show ?thesis unfolding d rs by (rule b)
  next
    case False
    have b: "backtrack (ddlen r st') (render r st' @ CHR ''/'' # e) = render r st'"
      using e ddlen_le [of r st'] by (intro backtrack_sep) simp_all
    have rs: "render r (st' @ [e]) = render r st' @ CHR ''/'' # e"
      using render_snoc [OF c', of e] False by simp
    show ?thesis unfolding d rs by (rule b)
  qed
qed

lemma backtrack_render:
  assumes "cleaned r st" "st \<noteq> []" "last st \<noteq> ''..''"
  shows "backtrack (ddlen r st) (render r st) = render r (butlast st)"
  using backtrack_render_snoc [of r "butlast st" "last st"] assms by simp

lemma split_path_takeWhile:
  "split_path p =
     takeWhile (\<lambda>x. x \<noteq> CHR ''/'') p #
     (case dropWhile (\<lambda>x. x \<noteq> CHR ''/'') p of [] \<Rightarrow> [] | x # ys \<Rightarrow> split_path ys)"
  by (induction p) simp_all

lemma foldl_split_sep:
  "foldl (clean_step r) st (split_path (CHR ''/'' # cs)) = foldl (clean_step r) st (split_path cs)"
  by (simp add: clean_step_def)

lemma clean_step_Nil: "clean_step r st [] = st"
  by (simp add: clean_step_def)

lemma foldl_split_step:
  "foldl (clean_step r) st (split_path p) =
     foldl (clean_step r) (clean_step r st (takeWhile (\<lambda>x. x \<noteq> CHR ''/'') p))
       (split_path (dropWhile (\<lambda>x. x \<noteq> CHR ''/'') p))"
proof -
  define e where "e = takeWhile (\<lambda>x. x \<noteq> CHR ''/'') p"
  define d where "d = dropWhile (\<lambda>x. x \<noteq> CHR ''/'') p"
  have sp: "split_path p = e # (case d of [] \<Rightarrow> [] | x # ys \<Rightarrow> split_path ys)"
    unfolding e_def d_def by (rule split_path_takeWhile)
  have "foldl (clean_step r) st (split_path p) =
          foldl (clean_step r) (clean_step r st e) (split_path d)"
  proof (cases d)
    case Nil
    then show ?thesis by (simp add: sp clean_step_Nil)
  next
    case (Cons x ys)
    then have "x = CHR ''/''"
      using hd_dropWhile [of "\<lambda>x. x \<noteq> CHR ''/''" p] by (auto simp: d_def)
    then show ?thesis using Cons by (simp add: sp clean_step_Nil)
  qed
  then show ?thesis by (simp only: e_def d_def)
qed

lemma takeWhile_Nil_hd: "takeWhile P cs = [] \<longleftrightarrow> cs = [] \<or> \<not> P (hd cs)"
  by (cases cs) simp_all

lemma dropWhile_id_hd: "cs = [] \<or> \<not> P (hd cs) \<Longrightarrow> dropWhile P cs = cs"
  by (cases cs) auto

lemma render_length_sep:
  assumes "cleaned r st"
  shows "(r \<and> length (render r st) \<noteq> 1 \<or> \<not> r \<and> length (render r st) \<noteq> 0) \<longleftrightarrow> st \<noteq> []"
  using cleaned_join_Nil_iff [OF assms] by (cases r) (auto simp: render_def)

lemma clean_loop_element:
  assumes "cleaned r st" "c \<noteq> CHR ''/''"
  shows "clean_loop r (c # cs) (render r st) (ddlen r st) =
           clean_loop r (dropWhile (\<lambda>x. x \<noteq> CHR ''/'') (c # cs))
             (render r (clean_step r st (takeWhile (\<lambda>x. x \<noteq> CHR ''/'') (c # cs))))
             (ddlen r (clean_step r st (takeWhile (\<lambda>x. x \<noteq> CHR ''/'') (c # cs))))"
proof -
  define e where "e = takeWhile (\<lambda>x. x \<noteq> CHR ''/'') (c # cs)"
  define d where "d = dropWhile (\<lambda>x. x \<noteq> CHR ''/'') (c # cs)"
  have e: "e = c # takeWhile (\<lambda>x. x \<noteq> CHR ''/'') cs" using assms(2) by (simp add: e_def)
  have d: "d = dropWhile (\<lambda>x. x \<noteq> CHR ''/'') cs" using assms(2) by (simp add: d_def)
  consider (dot) "c = CHR ''.''" "cs = [] \<or> hd cs = CHR ''/''"
    | (dotdot) "c = CHR ''.''" "cs \<noteq> []" "hd cs = CHR ''.''" "tl cs = [] \<or> hd (tl cs) = CHR ''/''"
    | (real) "\<not> (c = CHR ''.'' \<and> (cs = [] \<or> hd cs = CHR ''/''))"
        "\<not> (c = CHR ''.'' \<and> cs \<noteq> [] \<and> hd cs = CHR ''.'' \<and> (tl cs = [] \<or> hd (tl cs) = CHR ''/''))"
    by blast
  then have "clean_loop r (c # cs) (render r st) (ddlen r st) =
               clean_loop r d (render r (clean_step r st e)) (ddlen r (clean_step r st e))"
  proof cases
    case dot
    have e1: "e = ''.''" using dot by (simp add: e takeWhile_Nil_hd)
    have d1: "d = cs" using dot(2) unfolding d by (intro dropWhile_id_hd) simp
    have "clean_loop r (c # cs) (render r st) (ddlen r st) = clean_loop r cs (render r st) (ddlen r st)"
      using assms(2) dot by (subst clean_loop.simps) simp
    then show ?thesis by (simp add: e1 d1 clean_step_def)
  next
    case dotdot
    obtain cs' where cs: "cs = CHR ''.'' # cs'" using dotdot(2,3) by (cases cs) auto
    have cs': "cs' = [] \<or> hd cs' = CHR ''/''" using dotdot(4) cs by simp
    have e2: "e = ''..''" using dotdot(1) cs cs' by (simp add: e takeWhile_Nil_hd)
    have "dropWhile (\<lambda>x. x \<noteq> CHR ''/'') cs' = cs'" using cs' by (intro dropWhile_id_hd) simp
    then have d2: "d = cs'" by (simp add: d cs)
    have notdot: "\<not> (cs = [] \<or> hd cs = CHR ''/'')" using cs by simp
    show ?thesis
    proof (cases "st \<noteq> [] \<and> last st \<noteq> ''..''")
      case True
      then have gt: "length (render r st) > ddlen r st" using length_render_gt [OF assms(1)] by simp
      have "clean_loop r (c # cs) (render r st) (ddlen r st) =
              clean_loop r cs' (backtrack (ddlen r st) (render r st)) (ddlen r st)"
        using assms(2) dotdot(1) cs cs' gt by (subst clean_loop.simps) auto
      moreover have "clean_step r st e = butlast st" using True by (simp add: e2 clean_step_def)
      ultimately show ?thesis
        using True backtrack_render [OF assms(1)] ddlen_butlast [of st r] by (simp add: d2)
    next
      case False
      then have ngt: "\<not> length (render r st) > ddlen r st"
        using length_render_gt [OF assms(1)] by simp
      show ?thesis
      proof (cases r)
        case True
        have "clean_loop r (c # cs) (render r st) (ddlen r st) =
                clean_loop r cs' (render r st) (ddlen r st)"
          using assms(2) dotdot(1) cs cs' ngt True by (subst clean_loop.simps) auto
        moreover have "clean_step r st e = st" using False True by (auto simp: e2 clean_step_def)
        ultimately show ?thesis by (simp add: d2)
      next
        case nr: False
        have st2: "clean_step r st e = st @ [''..'']" using False nr by (auto simp: e2 clean_step_def)
        have "CHR ''/'' \<notin> set e" by (simp add: e2)
        then have "cleaned r (clean_step r st e)" by (rule clean_step_cleaned [OF assms(1)])
        then have "cleaned r (st @ [''..''])" unfolding st2 .
        then have "dd_shape (st @ [''..''])" by (simp add: cleaned_def)
        then have "takeWhile (\<lambda>e. e = ''..'') (st @ [''..'']) = st @ [''..'']"
          by (rule dd_shape_all_dotdot) simp
        then have dl: "ddlen r (st @ [''..'']) = length (render r (st @ [''..'']))"
          by (simp only: ddlen_def)
        have out: "(if length (render r st) > 0 then render r st @ ''/'' else render r st) @ ''..'' =
                     render r (st @ [''..''])"
          using nr cleaned_join_Nil_iff [OF assms(1)] by (simp add: render_def join_path_snoc)
        have "clean_loop r (c # cs) (render r st) (ddlen r st) =
                clean_loop r cs'
                  ((if length (render r st) > 0 then render r st @ ''/'' else render r st) @ ''..'')
                  (length ((if length (render r st) > 0 then render r st @ ''/'' else render r st) @ ''..''))"
          using assms(2) dotdot(1) cs cs' ngt nr by (subst clean_loop.simps) auto
        then show ?thesis unfolding out by (simp add: st2 d2 dl)
      qed
    qed
  next
    case real
    have ne: "e \<noteq> []" by (simp add: e)
    have n1: "e \<noteq> ''.''" using real(1) by (auto simp: e takeWhile_Nil_hd)
    have n2: "e \<noteq> ''..''"
    proof
      assume "e = ''..''"
      then have c: "c = CHR ''.''" and t: "takeWhile (\<lambda>x. x \<noteq> CHR ''/'') cs = ''.''"
        by (simp_all add: e)
      then obtain cs' where cs: "cs = CHR ''.'' # cs'" by (cases cs) (auto split: if_splits)
      then have "takeWhile (\<lambda>x. x \<noteq> CHR ''/'') cs' = []" using t by simp
      then have "cs' = [] \<or> hd cs' = CHR ''/''" by (simp add: takeWhile_Nil_hd)
      then show False using real(2) c cs by simp
    qed
    have st2: "clean_step r st e = st @ [e]" using ne n1 n2 by (simp add: clean_step_def)
    have out: "(if r \<and> length (render r st) \<noteq> 1 \<or> \<not> r \<and> length (render r st) \<noteq> 0
                then render r st @ ''/'' else render r st) @ e = render r (st @ [e])"
      using render_length_sep [OF assms(1)] render_snoc [OF assms(1), of e] by auto
    have "clean_loop r (c # cs) (render r st) (ddlen r st) =
            clean_loop r d
              ((if r \<and> length (render r st) \<noteq> 1 \<or> \<not> r \<and> length (render r st) \<noteq> 0
                then render r st @ ''/'' else render r st) @ e)
              (ddlen r st)"
      using assms(2) real unfolding e_def d_def by (subst clean_loop.simps) auto
    then show ?thesis unfolding out by (simp add: st2 ddlen_snoc_real [OF n2])
  qed
  then show ?thesis by (simp only: e_def d_def)
qed

lemma clean_loop_correct:
  "cleaned r st \<Longrightarrow>
   clean_loop r rest (render r st) (ddlen r st) =
     render r (foldl (clean_step r) st (split_path rest))"
proof (induction rest arbitrary: st rule: length_induct)
  case (1 rest)
  show ?case
  proof (cases rest)
    case Nil
    then show ?thesis by (simp add: clean_loop.simps clean_step_Nil)
  next
    case (Cons c cs)
    show ?thesis
    proof (cases "c = CHR ''/''")
      case True
      have "clean_loop r rest (render r st) (ddlen r st) =
              clean_loop r cs (render r st) (ddlen r st)"
        using Cons True by (simp add: clean_loop.simps)
      also have "\<dots> = render r (foldl (clean_step r) st (split_path cs))"
        using 1 Cons by simp
      finally show ?thesis using Cons True by (simp add: clean_step_Nil)
    next
      case False
      define e where "e = takeWhile (\<lambda>x. x \<noteq> CHR ''/'') rest"
      define d where "d = dropWhile (\<lambda>x. x \<noteq> CHR ''/'') rest"
      have len: "length d < length rest"
        using False Cons length_dropWhile_le [of "\<lambda>x. x \<noteq> CHR ''/''" cs] by (simp add: d_def)
      have ns: "CHR ''/'' \<notin> set e" by (auto simp: e_def dest: set_takeWhileD)
      have cl: "cleaned r (clean_step r st e)" using 1(2) ns by (rule clean_step_cleaned)
      have "clean_loop r rest (render r st) (ddlen r st) =
              clean_loop r d (render r (clean_step r st e)) (ddlen r (clean_step r st e))"
        unfolding Cons e_def d_def by (rule clean_loop_element [OF 1(2) False])
      also have "\<dots> = render r (foldl (clean_step r) (clean_step r st e) (split_path d))"
        using 1(1) len cl by blast
      also have "\<dots> = render r (foldl (clean_step r) st (split_path rest))"
        unfolding e_def d_def by (simp only: foldl_split_step [symmetric])
      finally show ?thesis .
    qed
  qed
qed

lemma Clean_elements:
  "Clean p =
     (if p = [] then ''.''
      else
        let out = (if is_rooted p then ''/'' else []) @
                  join_path (clean_elems (is_rooted p) (split_path p))
        in if out = [] then ''.'' else out)"
proof (cases "p = []")
  case True
  then show ?thesis by (simp add: Clean_def)
next
  case False
  then obtain c cs where p: "p = c # cs" by (cases p) auto
  have c0: "cleaned r []" for r by (simp add: cleaned_def)
  show ?thesis
  proof (cases "c = CHR ''/''")
    case True
    have "clean_loop True cs ''/'' 1 = clean_loop True cs (render True []) (ddlen True [])"
      by (simp add: render_def ddlen_def)
    also have "\<dots> = render True (foldl (clean_step True) [] (split_path cs))"
      by (rule clean_loop_correct [OF c0])
    finally show ?thesis using True p
      by (simp add: Clean_def is_rooted_def clean_elems_def render_def clean_step_Nil)
  next
    case nr: False
    have "clean_loop False p [] 0 = clean_loop False p (render False []) (ddlen False [])"
      by (simp add: render_def ddlen_def)
    also have "\<dots> = render False (foldl (clean_step False) [] (split_path p))"
      by (rule clean_loop_correct [OF c0])
    finally show ?thesis using nr p
      by (simp add: Clean_def is_rooted_def clean_elems_def render_def Let_def)
  qed
qed

subsection \<open>The result of Clean\<close>

lemma Clean_form:
  "Clean p =
     (if path_elems p = [] then (if is_rooted p then ''/'' else ''.'')
      else (if is_rooted p then ''/'' else []) @ join_path (path_elems p))"
proof (cases "p = []")
  case True
  then show ?thesis
    by (simp add: Clean_elements path_elems_def is_rooted_def clean_elems_def clean_step_def)
next
  case False
  have j: "join_path (path_elems p) = [] \<longleftrightarrow> path_elems p = []"
    using cleaned_join_Nil_iff [OF path_elems_cleaned] .
  show ?thesis using False j
    by (auto simp: Clean_elements Let_def path_elems_def [symmetric])
qed

lemma Clean_not_Nil [simp]: "Clean p \<noteq> []"
  using cleaned_join_Nil_iff [OF path_elems_cleaned, of p]
  by (simp add: Clean_form)

lemma split_Clean:
  "split_path (Clean p) =
     (if path_elems p = [] then (if is_rooted p then [[], []] else [''.''])
      else (if is_rooted p then [] # path_elems p else path_elems p))"
proof (cases "path_elems p = []")
  case True
  then show ?thesis by (simp add: Clean_form)
next
  case False
  have ns: "\<forall>e\<in>set (path_elems p). CHR ''/'' \<notin> set e"
    using cleaned_elem_ok [OF path_elems_cleaned] by (auto simp: elem_ok_def)
  have sj: "split_path (join_path (path_elems p)) = path_elems p"
    using split_join [OF False ns] .
  have "split_path (CHR ''/'' # join_path (path_elems p)) = [] # path_elems p"
    using sj by simp
  then show ?thesis using False sj by (simp add: Clean_form)
qed

lemma real_elems_Clean: "real_elems (Clean p) = path_elems p"
proof -
  have "filter (\<lambda>e. e \<noteq> [] \<and> e \<noteq> ''.'') (path_elems p) = path_elems p"
    using cleaned_elem_ok [OF path_elems_cleaned, of _ p]
    by (intro filter_True) (auto simp: elem_ok_def)
  then show ?thesis by (simp add: real_elems_def split_Clean)
qed

lemma is_rooted_Clean: "is_rooted (Clean p) = is_rooted p"
proof (cases "path_elems p = []")
  case True
  then show ?thesis by (simp add: Clean_form is_rooted_def)
next
  case False
  then have h: "hd (path_elems p) \<in> set (path_elems p)" by simp
  have ok: "elem_ok (hd (path_elems p))" using cleaned_elem_ok [OF path_elems_cleaned h] .
  then have "hd (join_path (path_elems p)) = hd (hd (path_elems p))"
    using False by (intro hd_join_path) (simp_all add: elem_ok_def)
  moreover have "hd (hd (path_elems p)) \<noteq> CHR ''/''"
    using ok by (cases "hd (path_elems p)") (auto simp: elem_ok_def)
  moreover have "join_path (path_elems p) \<noteq> []"
    using cleaned_join_Nil_iff [OF path_elems_cleaned, of p] False by simp
  ultimately show ?thesis using False
    by (cases "is_rooted p") (simp_all add: Clean_form is_rooted_def)
qed

lemma clean_elems_split_Clean:
  "clean_elems (is_rooted p) (split_path (Clean p)) = path_elems p"
  using clean_elems_cleaned_id [OF path_elems_cleaned, of p]
  by (cases "is_rooted p")
     (simp_all add: split_Clean clean_elems_Nil_Cons clean_elems_dot_Cons clean_elems_Nil)

lemma path_elems_Clean: "path_elems (Clean p) = path_elems p"
  using clean_elems_split_Clean [of p] by (simp add: path_elems_def is_rooted_Clean)

lemma Clean_idem: "Clean (Clean p) = Clean p"
proof -
  have "Clean (Clean p) =
     (if path_elems (Clean p) = [] then (if is_rooted (Clean p) then ''/'' else ''.'')
      else (if is_rooted (Clean p) then ''/'' else []) @ join_path (path_elems (Clean p)))"
    by (rule Clean_form)
  also have "\<dots> =
     (if path_elems p = [] then (if is_rooted p then ''/'' else ''.'')
      else (if is_rooted p then ''/'' else []) @ join_path (path_elems p))"
    by (simp only: path_elems_Clean is_rooted_Clean)
  also have "\<dots> = Clean p" by (rule Clean_form [symmetric])
  finally show ?thesis .
qed

lemma last_Clean: "Clean p \<noteq> ''/'' \<Longrightarrow> last (Clean p) \<noteq> CHR ''/''"
proof (cases "path_elems p = []")
  case True
  assume "Clean p \<noteq> ''/''"
  then show ?thesis using True by (simp add: Clean_form split: if_splits)
next
  case False
  then have l: "last (path_elems p) \<in> set (path_elems p)" by simp
  have ok: "elem_ok (last (path_elems p))" using cleaned_elem_ok [OF path_elems_cleaned l] .
  then have "last (join_path (path_elems p)) = last (last (path_elems p))"
    using False by (intro last_join_path) (simp_all add: elem_ok_def)
  moreover have "last (last (path_elems p)) \<noteq> CHR ''/''"
    using ok by (metis elem_ok_def last_in_set)
  moreover have "join_path (path_elems p) \<noteq> []"
    using cleaned_join_Nil_iff [OF path_elems_cleaned, of p] False by simp
  ultimately show ?thesis using False by (simp add: Clean_form)
qed

lemma HasSuffix_slash: "HasSuffix p ''/'' \<longleftrightarrow> p \<noteq> [] \<and> last p = CHR ''/''"
proof (cases p rule: rev_cases)
  case Nil
  then show ?thesis by (simp add: HasSuffix_def)
next
  case (snoc ys y)
  then show ?thesis by (auto simp: HasSuffix_def)
qed

lemma request_path_eq: "request_path urlPath = logged_path urlPath"
proof (cases "Clean urlPath = ''/''")
  case True
  then show ?thesis by (simp add: request_path_alt logged_path_def HasSuffix_def)
next
  case False
  then show ?thesis using last_Clean [OF False]
    by (simp add: request_path_alt logged_path_def HasSuffix_slash)
qed

lemma Clean_append_slash: "p \<noteq> [] \<Longrightarrow> Clean (p @ ''/'') = Clean p"
proof -
  assume ne: "p \<noteq> []"
  have r: "is_rooted (p @ ''/'') = is_rooted p" using ne by (simp add: is_rooted_def)
  have "split_path (p @ ''/'') = split_path p @ [[]]"
    using split_path_append_sep [of p "[]"] by simp
  then have "path_elems (p @ ''/'') = path_elems p"
    by (simp add: path_elems_def r clean_elems_append clean_step_def)
  then show ?thesis by (simp add: Clean_form [of "p @ ''/''"] Clean_form [of p] r)
qed

subsection \<open>Candidates and the root directory\<close>

lemma within_rootI:
  "is_rooted p = is_rooted root \<Longrightarrow> real_elems p = path_elems root @ rest \<Longrightarrow>
   ''..'' \<notin> set rest \<Longrightarrow> within_root root p"
  by (simp add: within_root_def real_elems_Clean is_rooted_Clean)

lemma dd_shape_append_plain: "dd_shape xs \<Longrightarrow> ''..'' \<notin> set ys \<Longrightarrow> dd_shape (xs @ ys)"
  by (induction xs) (auto simp: dd_shape_no_dotdot)

lemma is_rooted_append: "a \<noteq> [] \<Longrightarrow> is_rooted (a @ b) = is_rooted a"
  by (simp add: is_rooted_def)

lemma Join_Clean_elem:
  assumes "e \<noteq> []" "e \<noteq> ''.''" "e \<noteq> ''..''" "CHR ''/'' \<notin> set e"
  shows "real_elems (Join (Clean X) e) = path_elems X @ [e]"
    and "is_rooted (Join (Clean X) e) = is_rooted X"
proof -
  define Y where "Y = Clean X @ CHR ''/'' # e"
  have J: "Join (Clean X) e = Clean Y" by (simp add: Join_def Y_def)
  have r: "is_rooted Y = is_rooted X"
    unfolding Y_def using is_rooted_append [of "Clean X"] by (simp add: is_rooted_Clean)
  have "split_path Y = split_path (Clean X) @ [e]"
    unfolding Y_def using assms(4) by (simp add: split_path_append_sep split_path_single)
  then have "path_elems Y = clean_step (is_rooted X) (path_elems X) e"
    by (simp add: path_elems_def [of Y] r clean_elems_append clean_elems_split_Clean)
  then have pe: "path_elems Y = path_elems X @ [e]" using assms by (simp add: clean_step_def)
  show "real_elems (Join (Clean X) e) = path_elems X @ [e]"
    using pe by (simp add: J real_elems_Clean)
  show "is_rooted (Join (Clean X) e) = is_rooted X"
    using r by (simp add: J is_rooted_Clean)
qed

lemma real_elems_Clean_append:
  assumes "path_elems X \<noteq> []" "t \<noteq> []" "CHR ''/'' \<notin> set t"
  shows "real_elems (Clean X @ t) = butlast (path_elems X) @ [last (path_elems X) @ t]"
    and "is_rooted (Clean X @ t) = is_rooted X"
proof -
  define pe where "pe = path_elems X"
  define es where "es = butlast pe @ [last pe @ t]"
  have pe_ne: "pe \<noteq> []" using assms(1) by (simp add: pe_def)
  have ok: "\<And>e. e \<in> set pe \<Longrightarrow> elem_ok e"
    using cleaned_elem_ok [OF path_elems_cleaned, of _ X] by (simp add: pe_def)
  have okl: "elem_ok (last pe)" using ok pe_ne by simp
  have okb: "\<And>e. e \<in> set (butlast pe) \<Longrightarrow> elem_ok e" using ok by (auto dest: in_set_butlastD)
  have "join_path pe @ t = join_path (butlast pe @ [last pe]) @ t" using pe_ne by simp
  also have "\<dots> = join_path es" unfolding es_def by (rule join_path_snoc_append)
  finally have j: "join_path pe @ t = join_path es" .
  have C: "Clean X @ t = (if is_rooted X then ''/'' else []) @ join_path es"
    using assms(1) j by (simp add: Clean_form pe_def)
  have ns: "\<forall>e\<in>set es. CHR ''/'' \<notin> set e"
    using okb okl assms(3) by (auto simp: es_def elem_ok_def)
  have sj: "split_path (join_path es) = es" by (rule split_join [OF _ ns]) (simp add: es_def)
  have sp: "split_path (Clean X @ t) = (if is_rooted X then [] # es else es)"
    using sj by (simp add: C)
  have ok_es: "e \<noteq> [] \<and> e \<noteq> ''.''" if "e \<in> set es" for e
  proof -
    from that consider "e \<in> set (butlast pe)" | "e = last pe @ t" by (auto simp: es_def)
    then show ?thesis
    proof cases
      case 1
      then show ?thesis using okb by (auto simp: elem_ok_def)
    next
      case 2
      have "length e \<ge> 2" using okl assms(2) 2
        by (cases "last pe"; cases t) (auto simp: elem_ok_def)
      then show ?thesis by auto
    qed
  qed
  have keep: "filter (\<lambda>e. e \<noteq> [] \<and> e \<noteq> ''.'') es = es"
    using ok_es by (intro filter_True) blast
  show "real_elems (Clean X @ t) = butlast (path_elems X) @ [last (path_elems X) @ t]"
    using keep by (simp add: real_elems_def sp es_def pe_def)
  have es_ne: "es \<noteq> []" by (simp add: es_def)
  have ne: "join_path es \<noteq> []"
    using assms(2) by (intro join_path_not_Nil) (simp_all add: es_def)
  have h: "hd es \<in> set es" using es_ne by (rule hd_in_set)
  have hne: "hd es \<noteq> []" using ok_es [OF h] by simp
  have "hd (join_path es) = hd (hd es)" using es_ne hne by (rule hd_join_path)
  moreover have "hd (hd es) \<in> set (hd es)" using hne by (rule hd_in_set)
  ultimately have "hd (join_path es) \<noteq> CHR ''/''" using ns h by metis
  then show "is_rooted (Clean X @ t) = is_rooted X"
    using ne by (cases "is_rooted X") (simp_all add: C is_rooted_def)
qed

lemma logged_path_not_Nil [simp]: "logged_path urlPath \<noteq> []"
  by (simp add: logged_path_def)

lemma candidateA_Clean: "\<exists>X. candidateA s urlPath = Clean X"
  by (auto simp: candidateA_def Join_def request_path_eq)

lemma candidateC_elems:
  assumes "candidateA s urlPath = Clean X"
  shows "real_elems (candidateC s urlPath) = path_elems X @ [''index.html'']"
    and "is_rooted (candidateC s urlPath) = is_rooted X"
  unfolding candidateC_def assms
  by (rule Join_Clean_elem; simp)+

lemma candidateC_neq_A: "candidateC s urlPath \<noteq> candidateA s urlPath"
proof
  assume eq: "candidateC s urlPath = candidateA s urlPath"
  obtain X where X: "candidateA s urlPath = Clean X" using candidateA_Clean by blast
  have "real_elems (candidateC s urlPath) = path_elems X @ [''index.html'']"
    using candidateC_elems(1) [OF X] .
  moreover have "real_elems (candidateA s urlPath) = path_elems X"
    by (simp add: X real_elems_Clean)
  ultimately show False using eq by simp
qed

lemma candidateC_neq_B: "candidateC s urlPath \<noteq> candidateB s urlPath"
proof
  assume eq: "candidateC s urlPath = candidateB s urlPath"
  obtain X where X: "candidateA s urlPath = Clean X" using candidateA_Clean by blast
  have c: "real_elems (candidateC s urlPath) = path_elems X @ [''index.html'']"
    using candidateC_elems(1) [OF X] .
  show False
  proof (cases "path_elems X = []")
    case True
    then have "candidateB s urlPath = ''/.html'' \<or> candidateB s urlPath = ''..html''"
      by (simp add: candidateB_def X Clean_form)
    then have "real_elems (candidateB s urlPath) \<noteq> [''index.html'']"
      by (auto simp: real_elems_def)
    then show False using c True eq by simp
  next
    case False
    have "real_elems (candidateB s urlPath) =
            butlast (path_elems X) @ [last (path_elems X) @ ''.html'']"
      unfolding candidateB_def X by (rule real_elems_Clean_append(1) [OF False]) simp_all
    then have "length (real_elems (candidateB s urlPath)) = length (path_elems X)"
      using False by simp
    then show False using c eq by simp
  qed
qed

lemma request_path_rooted:
  assumes "is_rooted urlPath"
  shows "\<exists>pes. pes \<noteq> [] \<and> (\<forall>e\<in>set pes. elem_ok e) \<and> ''..'' \<notin> set pes \<and>
           request_path urlPath = CHR ''/'' # join_path pes"
proof (cases "path_elems urlPath = []")
  case True
  then have "request_path urlPath = CHR ''/'' # join_path [''index.html'']"
    using assms by (simp add: request_path_eq logged_path_def Clean_form)
  then show ?thesis by (intro exI [of _ "[''index.html'']"]) (simp add: elem_ok_def)
next
  case False
  have cl: "cleaned True (path_elems urlPath)" using path_elems_cleaned [of urlPath] assms by simp
  have ne: "join_path (path_elems urlPath) \<noteq> []"
    using cleaned_join_Nil_iff [OF cl] False by simp
  have "request_path urlPath = CHR ''/'' # join_path (path_elems urlPath)"
    using assms False ne by (simp add: request_path_eq logged_path_def Clean_form)
  then show ?thesis using False cl
    by (intro exI [of _ "path_elems urlPath"]) (simp add: cleaned_def)
qed

lemma candidateA_rooted:
  assumes "RootDir (config s) \<noteq> []" "is_rooted urlPath"
  shows "\<exists>X pes. candidateA s urlPath = Clean X \<and> is_rooted X = is_rooted (RootDir (config s)) \<and>
           path_elems X = path_elems (RootDir (config s)) @ pes \<and> pes \<noteq> [] \<and>
           ''..'' \<notin> set pes"
proof -
  define root where "root = RootDir (config s)"
  obtain pes where pes: "pes \<noteq> []" "\<forall>e\<in>set pes. elem_ok e" "''..'' \<notin> set pes"
    "request_path urlPath = CHR ''/'' # join_path pes"
    using request_path_rooted [OF assms(2)] by blast
  define X where "X = root @ CHR ''/'' # CHR ''/'' # join_path pes"
  have A: "candidateA s urlPath = Clean X"
    using assms(1) by (simp add: candidateA_def Join_def pes(4) X_def root_def)
  have r: "is_rooted X = is_rooted root"
    unfolding X_def using assms(1) by (simp add: is_rooted_append root_def)
  have ns: "\<forall>e\<in>set pes. CHR ''/'' \<notin> set e" using pes(2) by (simp add: elem_ok_def)
  have "split_path X = split_path root @ [] # split_path (join_path pes)"
    unfolding X_def
    using split_path_append_sep [of root "CHR ''/'' # join_path pes"] by simp
  then have sp: "split_path X = split_path root @ [] # pes"
    using split_join [OF pes(1) ns] by simp
  have "dd_shape (path_elems root)" using path_elems_cleaned [of root] by (simp add: cleaned_def)
  then have dd: "dd_shape (path_elems root @ pes)" using pes(3) by (rule dd_shape_append_plain)
  have "path_elems X = foldl (clean_step (is_rooted root)) (path_elems root) pes"
    by (simp add: path_elems_def [of X] r sp clean_elems_append clean_step_def)
      (simp add: path_elems_def)
  also have "\<dots> = path_elems root @ pes"
    using pes(2,3) dd by (intro foldl_clean_step_keep) (auto simp: elem_ok_def)
  finally show ?thesis using A r pes(1,3) unfolding root_def by blast
qed

lemma candidates_within_root:
  assumes "RootDir (config s) \<noteq> []" "is_rooted urlPath"
  shows "within_root (RootDir (config s)) (candidateA s urlPath)"
    and "within_root (RootDir (config s)) (candidateB s urlPath)"
    and "within_root (RootDir (config s)) (candidateC s urlPath)"
proof -
  define root where "root = RootDir (config s)"
  obtain X pes where X: "candidateA s urlPath = Clean X" "is_rooted X = is_rooted root"
    "path_elems X = path_elems root @ pes" "pes \<noteq> []" "''..'' \<notin> set pes"
    using candidateA_rooted [OF assms] unfolding root_def by blast
  show "within_root (RootDir (config s)) (candidateA s urlPath)"
    unfolding root_def [symmetric]
    by (rule within_rootI [of _ _ pes]) (simp_all add: X real_elems_Clean is_rooted_Clean)
  have ne: "path_elems X \<noteq> []" using X(3,4) by simp
  have "real_elems (candidateB s urlPath) = butlast (path_elems X) @ [last (path_elems X) @ ''.html'']"
    unfolding candidateB_def X(1) by (rule real_elems_Clean_append(1) [OF ne]) simp_all
  then have b: "real_elems (candidateB s urlPath) =
                  path_elems root @ (butlast pes @ [last pes @ ''.html''])"
    using X(3,4) by (simp add: butlast_append)
  have rb: "is_rooted (candidateB s urlPath) = is_rooted root"
    unfolding candidateB_def X(1) using real_elems_Clean_append(2) [OF ne, of "''.html''"] X(2)
    by simp
  have "last pes @ ''.html'' \<noteq> ''..''" by (cases "last pes") auto
  then have nb: "''..'' \<notin> set (butlast pes @ [last pes @ ''.html''])"
    using X(5) by (auto dest: in_set_butlastD)
  show "within_root (RootDir (config s)) (candidateB s urlPath)"
    unfolding root_def [symmetric] by (rule within_rootI [OF rb b nb])
  show "within_root (RootDir (config s)) (candidateC s urlPath)"
    unfolding root_def [symmetric]
    using candidateC_elems [OF X(1)] X(2,3,5)
    by (intro within_rootI [of _ _ "pes @ [''index.html'']"]) simp_all
qed

subsection \<open>The log\<close>

lemma Printf_log: "log_lines (Printf lg msg st) = log_lines st @ lines_of lg [msg]"
  by (simp add: Printf_def lines_of_def split: Logger.splits)

lemma lines_of_append: "lines_of lg (xs @ ys) = lines_of lg xs @ lines_of lg ys"
  by (simp add: lines_of_def split: Logger.splits)

lemma tryServeFile_log:
  "log_lines (snd (tryServeFile s pl p st)) =
     log_lines st @ (if servable pl p then served_log s pl p else failed_log s pl p)"
  unfolding tryServeFile_def servable_def failed_log_def served_log_def Let_def
  by (cases "logger s")
     (simp_all add: lines_of_def split: sum.splits option.splits prod.splits)

lemma try_all_log:
  "log_lines (snd (try_all s pl cs st)) =
     log_lines st @ concat (map (failed_log s pl) (takeWhile (\<lambda>c. \<not> servable pl c) cs)) @
     (case first_servable pl cs of None \<Rightarrow> [] | Some c \<Rightarrow> served_log s pl c)"
proof (induction cs arbitrary: st)
  case Nil
  show ?case by (simp add: first_servable_def)
next
  case (Cons c cs)
  obtain b st' where t: "tryServeFile s pl c st = (b, st')" by (cases "tryServeFile s pl c st")
  have b: "b = servable pl c" using tryServeFile_fst [of s pl c st] t by simp
  have c': "log_lines st' = log_lines st @ (if servable pl c then served_log s pl c else failed_log s pl c)"
    using tryServeFile_log [of s pl c st] t by simp
  show ?case using Cons.IH [of st'] t b c'
    by (cases "servable pl c") (simp_all add: first_servable_def split: option.splits)
qed

subsection \<open>The result of ServeHTTP\<close>

lemma not_found_fields:
  "w (not_found s path st) = not_found_w (config s) path (w st)"
  "fs_calls (not_found s path st) = fs_calls st"
  "log_lines (not_found s path st) = log_lines st @ lines_of (logger s) [''Not found: '' @ path]"
  by (simp_all add: not_found_def not_found_w_def Let_def Printf_log split: option.splits)

lemma ServeHTTP_cases:
  "ServeHTTP s pl urlPath st0 =
     (let st' = snd (try_all s pl (candidates s urlPath)
                   (Printf (logger s) (''Handling request for: '' @ logged_path urlPath) st0))
      in if first_servable pl (candidates s urlPath) \<noteq> None then st'
         else not_found s (request_path urlPath) st')"
proof -
  define st1 where
    "st1 = Printf (logger s) (''Handling request for: '' @ logged_path urlPath) st0"
  obtain b st' where t: "try_all s pl (candidates s urlPath) st1 = (b, st')"
    by (cases "try_all s pl (candidates s urlPath) st1")
  have b: "b = (first_servable pl (candidates s urlPath) \<noteq> None)"
    using try_all_fst [of s pl "candidates s urlPath" st1] t by simp
  show ?thesis
    unfolding ServeHTTP_try_all Let_def st1_def [symmetric] t using b by simp
qed

lemma ServeHTTP_w:
  "w (ServeHTTP s pl urlPath st0) =
     (case first_servable pl (candidates s urlPath) of
        Some c \<Rightarrow> serve_response pl c (w st0)
      | None \<Rightarrow> not_found_w (config s) (request_path urlPath) (w st0))"
  by (simp add: ServeHTTP_cases Let_def try_all_w not_found_fields split: option.splits)

lemma ServeHTTP_calls:
  "fs_calls (ServeHTTP s pl urlPath st0) =
     fs_calls st0 @
     concat (map (failed_calls pl) (takeWhile (\<lambda>c. \<not> servable pl c) (candidates s urlPath))) @
     (case first_servable pl (candidates s urlPath) of None \<Rightarrow> [] | Some c \<Rightarrow> served_calls c)"
  by (simp add: ServeHTTP_cases Let_def try_all_calls not_found_fields split: option.splits)

lemma ServeHTTP_log:
  "log_lines (ServeHTTP s pl urlPath st0) =
     log_lines st0 @ lines_of (logger s) [''Handling request for: '' @ logged_path urlPath] @
     concat (map (failed_log s pl) (takeWhile (\<lambda>c. \<not> servable pl c) (candidates s urlPath))) @
     (case first_servable pl (candidates s urlPath) of
        None \<Rightarrow> lines_of (logger s) [''Not found: '' @ request_path urlPath]
      | Some c \<Rightarrow> served_log s pl c)"
  by (simp add: ServeHTTP_cases Let_def try_all_log not_found_fields Printf_log split:
          option.splits)

lemma probed_failed_calls: "concat (map (\<lambda>c. case c of CallStat p \<Rightarrow> [p] | _ \<Rightarrow> []) (failed_calls pl c)) = [c]"
  by (simp add: failed_calls_def split: sum.splits)

lemma probed_concat_failed:
  "concat (map (\<lambda>c. case c of CallStat p \<Rightarrow> [p] | _ \<Rightarrow> []) (concat (map (failed_calls pl) cs))) = cs"
  by (induction cs) (simp_all add: probed_failed_calls)

lemma served_concat_failed:
  "concat (map (\<lambda>c. case c of CallCopy p \<Rightarrow> [p] | _ \<Rightarrow> []) (concat (map (failed_calls pl) cs))) = []"
  by (induction cs) (simp_all add: failed_calls_def split: sum.splits)

lemma ServeHTTP_probed:
  "probed (ServeHTTP s pl urlPath start) =
     takeWhile (\<lambda>c. \<not> servable pl c) (candidates s urlPath) @
     (case first_servable pl (candidates s urlPath) of None \<Rightarrow> [] | Some c \<Rightarrow> [c])"
  by (simp add: probed_def ServeHTTP_calls start_def probed_concat_failed served_calls_def
      split: option.splits)

lemma ServeHTTP_served:
  "served (ServeHTTP s pl urlPath start) =
     (case first_servable pl (candidates s urlPath) of None \<Rightarrow> [] | Some c \<Rightarrow> [c])"
  by (simp add: served_def ServeHTTP_calls start_def served_concat_failed served_calls_def
      split: option.splits)

subsection \<open>Rules for evaluating a request on a given filesystem\<close>

lemmas path_eval =
  Clean_elements clean_elems_def clean_step_def is_rooted_def Join_def Ext_def HasSuffix_def
  request_path_def logged_path_def candidates_def candidateA_def candidateB_def candidateC_def

lemmas fs_eval =
  fs_with_def regular_file_def directory_def createTestFiles_def tempDir_def servable_def
  first_servable_def

lemmas response_eval =
  serve_response_def not_found_w_def NotFound_def Write_def WriteHeader_def HeaderSet_def
  Copy_def copied_def StatusCode_def NewRecorder_def start_def getContentType_def ToLower_def
  isASCII_def lowerByte_def

lemmas server_eval = NewServer_def NewServerWithConfig_def customConfig_def

lemma StatusCode_serve_response:
  "status rw = None \<Longrightarrow> StatusCode (serve_response pl c rw) = 200"
  by (simp add: response_eval split: sum.splits option.splits)

lemma StatusCode_not_found_w:
  "status rw = None \<Longrightarrow> StatusCode (not_found_w cfg path rw) = 404"
  by (simp add: response_eval split: sum.splits option.splits)

lemma status_not_found_w:
  "status rw = None \<Longrightarrow> status (not_found_w cfg path rw) = Some 404"
  by (simp add: response_eval split: sum.splits option.splits)

subsection \<open>The candidate that is served\<close>

lemma first_servable_Some:
  "first_servable pl cs = Some c \<Longrightarrow> c \<in> set cs \<and> servable pl c"
  unfolding first_servable_def by (auto simp: find_Some_iff)

lemma first_servable_None: "first_servable pl cs = None \<longleftrightarrow> (\<forall>c\<in>set cs. \<not> servable pl c)"
  unfolding first_servable_def by (auto simp: find_None_iff)

lemma servable_Open: "servable pl c \<Longrightarrow> \<exists>f. Open pl c = Inr f"
  unfolding servable_def by (auto split: sum.splits)

lemma body_serve_response:
  "Open pl c = Inr f \<Longrightarrow> body rw = [] \<Longrightarrow> body (serve_response pl c rw) = copied f"
  by (simp add: serve_response_def Copy_def Write_def WriteHeader_def HeaderSet_def)

lemma body_not_found_w:
  "body rw = [] \<Longrightarrow> status rw = None \<Longrightarrow>
   body (not_found_w cfg path rw) =
     (case NotFoundHandler cfg of Some handler \<Rightarrow> handler path
      | None \<Rightarrow> ''404 page not found'' @ [CHR 0x0A])"
  by (simp add: not_found_w_def NotFound_def Write_def WriteHeader_def HeaderSet_def
      split: option.splits)




subsection \<open>A file that was opened\<close>

lemma CallOpen_failed_calls:
  "CallOpen p \<in> set (failed_calls pl c) \<Longrightarrow> \<not> servable pl c \<Longrightarrow> \<exists>err. Open pl p = Inl err"
  by (auto simp: failed_calls_def servable_def split: sum.splits if_splits)

lemma CallOpen_served: "CallOpen p \<in> set (fs_calls (ServeHTTP s pl urlPath start)) \<Longrightarrow>
   Open pl p = Inr f \<Longrightarrow> first_servable pl (candidates s urlPath) = Some p"
proof -
  assume a: "CallOpen p \<in> set (fs_calls (ServeHTTP s pl urlPath start))" and f: "Open pl p = Inr f"
  have nf: "CallOpen p \<notin> set (concat (map (failed_calls pl)
              (takeWhile (\<lambda>c. \<not> servable pl c) (candidates s urlPath))))"
  proof
    assume "CallOpen p \<in> set (concat (map (failed_calls pl)
              (takeWhile (\<lambda>c. \<not> servable pl c) (candidates s urlPath))))"
    then obtain c where c: "c \<in> set (takeWhile (\<lambda>c. \<not> servable pl c) (candidates s urlPath))"
      and o: "CallOpen p \<in> set (failed_calls pl c)" by auto
    have "\<not> servable pl c" using c by (auto dest: set_takeWhileD)
    then show False using CallOpen_failed_calls [OF o] f by auto
  qed
  show ?thesis
  proof (cases "first_servable pl (candidates s urlPath)")
    case None
    then show ?thesis using a nf by (simp add: ServeHTTP_calls start_def)
  next
    case (Some c)
    then have "CallOpen p \<in> set (served_calls c)"
      using a nf by (simp add: ServeHTTP_calls start_def)
    then show ?thesis using Some by (simp add: served_calls_def)
  qed
qed

subsection \<open>A trailing slash\<close>

lemma try_all_append:
  "try_all s pl (xs @ ys) st =
     (case try_all s pl xs st of (True, st') \<Rightarrow> (True, st') | (False, st') \<Rightarrow> try_all s pl ys st')"
  by (induction xs arbitrary: st) (simp_all split: prod.splits bool.splits)

lemma HasSuffix_append_slash: "HasSuffix (p @ ''/'') ''/''"
  by (simp add: HasSuffix_def)

lemma candidates_append_slash:
  assumes "urlPath \<noteq> []" "\<not> HasSuffix urlPath ''/''"
  shows "candidates s (urlPath @ ''/'') = candidates s urlPath @ [candidateC s urlPath]"
    and "request_path (urlPath @ ''/'') = request_path urlPath"
    and "logged_path (urlPath @ ''/'') = logged_path urlPath"
proof -
  have c: "Clean (urlPath @ ''/'') = Clean urlPath" using assms(1) by (rule Clean_append_slash)
  show r: "request_path (urlPath @ ''/'') = request_path urlPath"
    by (simp add: request_path_def c)
  show "logged_path (urlPath @ ''/'') = logged_path urlPath"
    by (simp add: logged_path_def c)
  have a: "candidateA s (urlPath @ ''/'') = candidateA s urlPath"
    by (simp add: candidateA_def r)
  show "candidates s (urlPath @ ''/'') = candidates s urlPath @ [candidateC s urlPath]"
    using assms(2) HasSuffix_append_slash [of urlPath]
    by (simp add: candidates_def candidateB_def candidateC_def a r)
qed

lemma first_servable_append:
  "first_servable pl (xs @ ys) =
     (case first_servable pl xs of Some c \<Rightarrow> Some c | None \<Rightarrow> first_servable pl ys)"
  unfolding first_servable_def by (induction xs) simp_all

subsection \<open>The paths that are probed\<close>

lemma probed_subset_candidates:
  "set (probed (ServeHTTP s pl urlPath start)) \<subseteq> set (candidates s urlPath)"
proof -
  have "set (takeWhile (\<lambda>c. \<not> servable pl c) (candidates s urlPath)) \<subseteq> set (candidates s urlPath)"
    by (auto dest: set_takeWhileD)
  then show ?thesis
    using first_servable_Some [of pl "candidates s urlPath"]
    by (auto simp: ServeHTTP_probed split: option.splits)
qed

lemma set_candidates:
  "set (candidates s urlPath) \<subseteq> {candidateA s urlPath, candidateB s urlPath, candidateC s urlPath}"
  by (auto simp: candidates_def)

subsection \<open>Errors and absent files\<close>

lemma servable_errors_as_absent: "servable (errors_as_absent pl) p = servable pl p"
  by (simp add: servable_def errors_as_absent_def split: sum.splits)

lemma errors_as_absent_fields:
  "Open (errors_as_absent pl) = Open pl"
  "unicodeLower (errors_as_absent pl) = unicodeLower pl"
  by (simp_all add: errors_as_absent_def)

lemma serve_response_errors_as_absent:
  "serve_response (errors_as_absent pl) p rw = serve_response pl p rw"
  unfolding serve_response_def errors_as_absent_fields ..

lemma servable_errors_as_absent_fun: "servable (errors_as_absent pl) = servable pl"
  by (rule ext) (rule servable_errors_as_absent)

lemma first_servable_errors_as_absent:
  "first_servable (errors_as_absent pl) cs = first_servable pl cs"
  by (simp add: first_servable_def servable_errors_as_absent_fun)

lemma failed_log_in_log:
  assumes "c \<in> set (takeWhile (\<lambda>c. \<not> servable pl c) (candidates s urlPath))"
  shows "set (failed_log s pl c) \<subseteq> set (log_lines (ServeHTTP s pl urlPath st))"
  using assms by (auto simp: ServeHTTP_log)

subsection \<open>The model on known inputs\<close>

text \<open>
  The test table of \<open>filepath.Clean\<close> in the Go library (\<open>cleantests\<close>), and
  results of \<open>filepath.Join\<close> and \<open>filepath.Ext\<close> from its tests and documentation.
\<close>

lemma Clean_already_clean:
  "Clean ''abc'' = ''abc''"
  "Clean ''abc/def'' = ''abc/def''"
  "Clean ''a/b/c'' = ''a/b/c''"
  "Clean ''.'' = ''.''"
  "Clean ''..'' = ''..''"
  "Clean ''../..'' = ''../..''"
  "Clean ''../../abc'' = ''../../abc''"
  "Clean ''/abc'' = ''/abc''"
  "Clean ''/'' = ''/''"
  "Clean [] = ''.''"
  by (simp_all add: path_eval)

lemma Clean_trailing_slash:
  "Clean ''abc/'' = ''abc''"
  "Clean ''abc/def/'' = ''abc/def''"
  "Clean ''a/b/c/'' = ''a/b/c''"
  "Clean ''./'' = ''.''"
  "Clean ''../'' = ''..''"
  "Clean ''../../'' = ''../..''"
  "Clean ''/abc/'' = ''/abc''"
  by (simp_all add: path_eval)

lemma Clean_doubled_slash_and_dot:
  "Clean ''abc//def//ghi'' = ''abc/def/ghi''"
  "Clean ''abc//'' = ''abc''"
  "Clean ''//'' = ''/''"
  "Clean ''abc/./def'' = ''abc/def''"
  "Clean ''/./abc/def'' = ''/abc/def''"
  "Clean ''abc/.'' = ''abc''"
  by (simp_all add: path_eval)

lemma Clean_dotdot:
  "Clean ''abc/def/ghi/../jkl'' = ''abc/def/jkl''"
  "Clean ''abc/def/../ghi/../jkl'' = ''abc/jkl''"
  "Clean ''abc/def/..'' = ''abc''"
  "Clean ''abc/def/../..'' = ''.''"
  "Clean ''/abc/def/../..'' = ''/''"
  "Clean ''abc/def/../../..'' = ''..''"
  "Clean ''/abc/def/../../..'' = ''/''"
  "Clean ''abc/def/../../../ghi/jkl/../../../mno'' = ''../../mno''"
  "Clean ''/../abc'' = ''/abc''"
  by (simp_all add: path_eval)

lemma Clean_combinations:
  "Clean ''abc/./../def'' = ''def''"
  "Clean ''abc//./../def'' = ''def''"
  "Clean ''abc/../../././../def'' = ''../../def''"
  by (simp_all add: path_eval)

lemma Join_examples:
  "Join ''a'' ''b'' = ''a/b''"
  "Join ''a'' [] = ''a''"
  "Join [] ''b'' = ''b''"
  "Join ''/'' ''a'' = ''/a''"
  "Join ''a/'' ''b'' = ''a/b''"
  "Join ''a'' ''/b'' = ''a/b''"
  "Join [] [] = []"
  "Join ''a'' ''../b'' = ''b''"
  by (simp_all add: path_eval)

lemma Ext_examples:
  "Ext ''path.go'' = ''.go''"
  "Ext ''path.pb.go'' = ''.go''"
  "Ext ''a.dir/b'' = []"
  "Ext ''a.dir/b.go'' = ''.go''"
  "Ext ''a.dir/'' = []"
  by (simp_all add: path_eval)

text \<open>
  The request \<open>/about\<close> on the files of the tests, by unfolding \<open>ServeHTTP\<close> and
  \<open>tryServeFile\<close> themselves.
\<close>

lemma ServeHTTP_unfolded_example:
  "ServeHTTP (NewServer tempDir) (createTestFiles tempDir) ''/about'' start =
     \<lparr>w = \<lparr>header = [''Content-Type'' \<mapsto> ''text/html''], status = Some 200,
              body = ''<html><body>About Page</body></html>''\<rparr>,
      log_lines = [''Handling request for: /about'', ''Serving file: /tmp/site/about.html''],
      fs_calls = [CallStat ''/tmp/site/about'', CallStat ''/tmp/site/about.html'',
                  CallOpen ''/tmp/site/about.html'', CallCopy ''/tmp/site/about.html'',
                  CallClose ''/tmp/site/about.html'']\<rparr>"
  by (simp add: ServeHTTP_def tryServeFile_def Let_def Clean_elements clean_elems_def clean_step_def
      is_rooted_def Join_def Ext_def HasSuffix_def fs_eval server_eval Printf_def called_def
      response_eval start_def)

text \<open>The cases of \<open>TestServer\<close> and \<open>TestServerWithCustomConfig\<close>.\<close>

lemma TestServer:
  "StatusCode (w (ServeHTTP (NewServer tempDir) (createTestFiles tempDir) ''/'' start)) = 200"
  "body (w (ServeHTTP (NewServer tempDir) (createTestFiles tempDir) ''/'' start)) =
     ''<html><body>Index Page</body></html>''"
  "StatusCode (w (ServeHTTP (NewServer tempDir) (createTestFiles tempDir) ''/about'' start)) = 200"
  "body (w (ServeHTTP (NewServer tempDir) (createTestFiles tempDir) ''/about'' start)) =
     ''<html><body>About Page</body></html>''"
  "StatusCode (w (ServeHTTP (NewServer tempDir) (createTestFiles tempDir) ''/about/'' start)) = 200"
  "body (w (ServeHTTP (NewServer tempDir) (createTestFiles tempDir) ''/about/'' start)) =
     ''<html><body>About Page</body></html>''"
  "StatusCode (w (ServeHTTP (NewServer tempDir) (createTestFiles tempDir) ''/about.html'' start)) =
     200"
  "body (w (ServeHTTP (NewServer tempDir) (createTestFiles tempDir) ''/about.html'' start)) =
     ''<html><body>About Page</body></html>''"
  "StatusCode (w (ServeHTTP (NewServer tempDir) (createTestFiles tempDir) ''/nonexistent'' start)) =
     404"
  "body (w (ServeHTTP (NewServer tempDir) (createTestFiles tempDir) ''/nonexistent'' start)) =
     ''404 page not found'' @ [CHR 0x0A]"
  by (simp_all add: ServeHTTP_w path_eval fs_eval server_eval response_eval)

lemma TestServerWithCustomConfig:
  "StatusCode (w (ServeHTTP (NewServerWithConfig (customConfig tempDir)) (createTestFiles tempDir)
     ''/about'' start)) = 404"
  "body (w (ServeHTTP (NewServerWithConfig (customConfig tempDir)) (createTestFiles tempDir)
     ''/about'' start)) = ''Custom 404: /about not found''"
  "StatusCode (w (ServeHTTP (NewServerWithConfig (customConfig tempDir)) (createTestFiles tempDir)
     ''/about.html'' start)) = 200"
  "body (w (ServeHTTP (NewServerWithConfig (customConfig tempDir)) (createTestFiles tempDir)
     ''/about.html'' start)) = ''<html><body>About Page</body></html>''"
  "StatusCode (w (ServeHTTP (NewServerWithConfig (customConfig tempDir)) (createTestFiles tempDir)
     ''/nonexistent'' start)) = 404"
  "body (w (ServeHTTP (NewServerWithConfig (customConfig tempDir)) (createTestFiles tempDir)
     ''/nonexistent'' start)) = ''Custom 404: /nonexistent not found''"
  by (simp_all add: ServeHTTP_w path_eval fs_eval server_eval response_eval customNotFound_def)

section \<open>The properties\<close>

text \<open>
  C1 (amended). For every server and every URL path, \<open>ServeHTTP\<close> cleans the path,
  rewrites a cleaned path \<open>/\<close> to \<open>/index.html\<close> (after which there is no trailing
  slash left to strip), and tries in this order: (A) that path joined onto the root;
  (B) candidate A with \<open>.html\<close> appended, only when \<open>AddHtmlExtension\<close> is set and the
  path has no extension; (C) \<open>index.html\<close> joined onto candidate A, only when the URL
  path of the request ends with a slash. It stats the candidates up to the first that
  is an existing file, no directory, that can be opened, serves that one, and answers
  404 when there is none.
\<close>

theorem resolution_order:
  "request_path urlPath = (if Clean urlPath = ''/'' then ''/index.html'' else Clean urlPath) \<and>
   candidates s urlPath =
     [Join (RootDir (config s)) (request_path urlPath)] @
     (if AddHtmlExtension (config s) \<and> Ext (request_path urlPath) = []
      then [Join (RootDir (config s)) (request_path urlPath) @ ''.html''] else []) @
     (if HasSuffix urlPath ''/''
      then [Join (Join (RootDir (config s)) (request_path urlPath)) ''index.html''] else []) \<and>
   probed (ServeHTTP s pl urlPath start) =
     takeWhile (\<lambda>c. \<not> servable pl c) (candidates s urlPath) @
     (case first_servable pl (candidates s urlPath) of None \<Rightarrow> [] | Some c \<Rightarrow> [c]) \<and>
   served (ServeHTTP s pl urlPath start) =
     (case first_servable pl (candidates s urlPath) of None \<Rightarrow> [] | Some c \<Rightarrow> [c]) \<and>
   StatusCode (w (ServeHTTP s pl urlPath start)) =
     (case first_servable pl (candidates s urlPath) of None \<Rightarrow> 404 | Some c \<Rightarrow> 200)"
proof -
  have 1: "request_path urlPath = (if Clean urlPath = ''/'' then ''/index.html'' else Clean urlPath)"
    by (simp add: request_path_eq logged_path_def)
  have 2: "candidates s urlPath =
     [Join (RootDir (config s)) (request_path urlPath)] @
     (if AddHtmlExtension (config s) \<and> Ext (request_path urlPath) = []
      then [Join (RootDir (config s)) (request_path urlPath) @ ''.html''] else []) @
     (if HasSuffix urlPath ''/''
      then [Join (Join (RootDir (config s)) (request_path urlPath)) ''index.html''] else [])"
    by (simp add: candidates_def candidateA_def candidateB_def candidateC_def)
  have 5: "StatusCode (w (ServeHTTP s pl urlPath start)) =
     (case first_servable pl (candidates s urlPath) of None \<Rightarrow> 404 | Some c \<Rightarrow> 200)"
    by (simp add: ServeHTTP_w StatusCode_serve_response StatusCode_not_found_w start_def
        NewRecorder_def split: option.splits)
  show ?thesis using 1 2 ServeHTTP_probed [of s pl urlPath] ServeHTTP_served [of s pl urlPath] 5
    by blast
qed

text \<open>
  C1 as stated fails: the summary tries candidate C without a condition and serves the
  first candidate that exists as a file. For \<open>/nested\<close> on the files of the tests it
  names \<open>nested/index.html\<close>, where \<open>ServeHTTP\<close> serves nothing and answers 404; and
  where \<open>page\<close> exists but cannot be opened it names \<open>page\<close>, where \<open>ServeHTTP\<close>
  serves \<open>page.html\<close>.
\<close>

theorem resolution_order_counterexample:
  "claimed_resolution (NewServer tempDir) (createTestFiles tempDir) ''/nested'' =
     Some ''/tmp/site/nested/index.html'' \<and>
   served (ServeHTTP (NewServer tempDir) (createTestFiles tempDir) ''/nested'' start) = [] \<and>
   StatusCode (w (ServeHTTP (NewServer tempDir) (createTestFiles tempDir) ''/nested'' start)) = 404 \<and>
   claimed_resolution (NewServer tempDir) locked_page ''/page'' = Some ''/tmp/site/page'' \<and>
   served (ServeHTTP (NewServer tempDir) locked_page ''/page'' start) = [''/tmp/site/page.html'']"
proof -
  have a: "claimed_resolution (NewServer tempDir) (createTestFiles tempDir) ''/nested'' =
     Some ''/tmp/site/nested/index.html''"
    by (simp add: claimed_resolution_def claimed_candidates_def existing_regular_def
        path_eval locked_page_def fs_eval server_eval)
  have b: "served (ServeHTTP (NewServer tempDir) (createTestFiles tempDir) ''/nested'' start) = []"
    by (simp add: ServeHTTP_served path_eval locked_page_def fs_eval server_eval)
  have c: "StatusCode (w (ServeHTTP (NewServer tempDir) (createTestFiles tempDir) ''/nested'' start)) = 404"
    by (simp add: ServeHTTP_w path_eval locked_page_def fs_eval server_eval response_eval)
  have d: "claimed_resolution (NewServer tempDir) locked_page ''/page'' = Some ''/tmp/site/page''"
    by (simp add: claimed_resolution_def claimed_candidates_def existing_regular_def
        path_eval locked_page_def fs_eval server_eval)
  have e: "served (ServeHTTP (NewServer tempDir) locked_page ''/page'' start) = [''/tmp/site/page.html'']"
    by (simp add: ServeHTTP_served path_eval locked_page_def fs_eval server_eval)
  show ?thesis using a b c d e by blast
qed

text \<open>
  C2. For every URL path and every server (any root, any setting of the options, any
  not-found handler, any logger), the status of the response that \<open>ServeHTTP\<close> writes
  is 404, or it is 200 and the body holds the bytes copied from the file of one of the
  candidates; it is never a 3xx status.
\<close>

theorem status_is_200_or_404:
  "(StatusCode (w (ServeHTTP s pl urlPath start)) = 404 \<or>
    StatusCode (w (ServeHTTP s pl urlPath start)) = 200 \<and>
    (\<exists>c f. c \<in> set (candidates s urlPath) \<and> Open pl c = Inr f \<and>
           body (w (ServeHTTP s pl urlPath start)) = copied f)) \<and>
   \<not> (300 \<le> StatusCode (w (ServeHTTP s pl urlPath start)) \<and>
      StatusCode (w (ServeHTTP s pl urlPath start)) < 400)"
proof (cases "first_servable pl (candidates s urlPath)")
  case None
  then have "StatusCode (w (ServeHTTP s pl urlPath start)) = 404"
    by (simp add: ServeHTTP_w StatusCode_not_found_w start_def NewRecorder_def)
  then show ?thesis by simp
next
  case (Some c)
  then obtain f where c: "c \<in> set (candidates s urlPath)" and f: "Open pl c = Inr f"
    using first_servable_Some servable_Open by blast
  have "StatusCode (w (ServeHTTP s pl urlPath start)) = 200"
    using Some by (simp add: ServeHTTP_w StatusCode_serve_response start_def NewRecorder_def)
  moreover have "body (w (ServeHTTP s pl urlPath start)) = copied f"
    using Some f by (simp add: ServeHTTP_w body_serve_response start_def NewRecorder_def)
  ultimately show ?thesis using c f by auto
qed

text \<open>
  C3 (amended). The directory-index candidate (candidate C, \<open>index.html\<close> joined
  onto candidate A) is attempted if and only if the URL path of the request, before
  cleaning, ends with a slash and neither candidate A nor candidate B was served. In
  particular, when neither candidate A nor candidate B of a path without trailing slash
  can be served and the \<open>index.html\<close> under it exists and can be opened, the path
  with a slash appended is answered 200 with that file and the path itself is answered
  404.
\<close>

theorem index_candidate_attempted:
  "(candidateC s urlPath \<in> set (probed (ServeHTTP s pl urlPath start)) \<longleftrightarrow>
      HasSuffix urlPath ''/'' \<and> \<not> servable pl (candidateA s urlPath) \<and>
      \<not> (AddHtmlExtension (config s) \<and> Ext (request_path urlPath) = [] \<and>
         servable pl (candidateB s urlPath))) \<and>
   (urlPath \<noteq> [] \<and> \<not> HasSuffix urlPath ''/'' \<and>
    \<not> servable pl (candidateA s urlPath) \<and> \<not> servable pl (candidateB s urlPath) \<and>
    Stat pl (candidateC s urlPath) = Inr info \<and> \<not> IsDir info \<and>
    Open pl (candidateC s urlPath) = Inr f \<longrightarrow>
      StatusCode (w (ServeHTTP s pl (urlPath @ ''/'') start)) = 200 \<and>
      body (w (ServeHTTP s pl (urlPath @ ''/'') start)) = copied f \<and>
      StatusCode (w (ServeHTTP s pl urlPath start)) = 404)"
proof -
  have 1: "candidateC s urlPath \<in> set (probed (ServeHTTP s pl urlPath start)) \<longleftrightarrow>
      HasSuffix urlPath ''/'' \<and> \<not> servable pl (candidateA s urlPath) \<and>
      \<not> (AddHtmlExtension (config s) \<and> Ext (request_path urlPath) = [] \<and>
         servable pl (candidateB s urlPath))"
    using candidateC_neq_A [of s urlPath] candidateC_neq_B [of s urlPath]
    by (auto simp: ServeHTTP_probed candidates_def first_servable_def)
  have 2: "StatusCode (w (ServeHTTP s pl (urlPath @ ''/'') start)) = 200 \<and>
      body (w (ServeHTTP s pl (urlPath @ ''/'') start)) = copied f \<and>
      StatusCode (w (ServeHTTP s pl urlPath start)) = 404"
    if a: "urlPath \<noteq> []" "\<not> HasSuffix urlPath ''/''"
      "\<not> servable pl (candidateA s urlPath)" "\<not> servable pl (candidateB s urlPath)"
      "Stat pl (candidateC s urlPath) = Inr info" "\<not> IsDir info"
      "Open pl (candidateC s urlPath) = Inr f"
  proof -
    have n: "first_servable pl (candidates s urlPath) = None"
      using a(2,3,4) by (simp add: candidates_def first_servable_def)
    have c: "servable pl (candidateC s urlPath)" using a(5,6,7) by (simp add: servable_def)
    have y: "first_servable pl (candidates s (urlPath @ ''/'')) = Some (candidateC s urlPath)"
      using n c
      by (simp add: candidates_append_slash(1) [OF a(1,2)] first_servable_append)
        (simp add: first_servable_def)
    show ?thesis
      using n y a(7)
      by (simp add: ServeHTTP_w StatusCode_serve_response StatusCode_not_found_w
          body_serve_response start_def NewRecorder_def)
  qed
  show ?thesis using 1 2 by blast
qed

text \<open>
  The files of the tests, with \<open>nested/index.html\<close> and no \<open>nested.html\<close>, and the
  extension option on: \<open>/nested/\<close> is answered 200 with the nested page, \<open>/nested\<close>
  is answered 404 without a probe of \<open>nested/index.html\<close>.
\<close>

theorem index_candidate_attempted_witness:
  "''/nested'' \<noteq> [] \<and> \<not> HasSuffix ''/nested'' ''/'' \<and>
   AddHtmlExtension (config (NewServer tempDir)) \<and>
   candidateB (NewServer tempDir) ''/nested'' = ''/tmp/site/nested.html'' \<and>
   \<not> servable (createTestFiles tempDir) (candidateA (NewServer tempDir) ''/nested'') \<and>
   \<not> servable (createTestFiles tempDir) (candidateB (NewServer tempDir) ''/nested'') \<and>
   candidateC (NewServer tempDir) ''/nested'' = ''/tmp/site/nested/index.html'' \<and>
   Stat (createTestFiles tempDir) ''/tmp/site/nested/index.html'' = Inr (FileInfo False) \<and>
   StatusCode (w (ServeHTTP (NewServer tempDir) (createTestFiles tempDir) ''/nested/'' start)) =
     200 \<and>
   body (w (ServeHTTP (NewServer tempDir) (createTestFiles tempDir) ''/nested/'' start)) =
     ''<html><body>Nested Page</body></html>'' \<and>
   StatusCode (w (ServeHTTP (NewServer tempDir) (createTestFiles tempDir) ''/nested'' start)) =
     404 \<and>
   candidateC (NewServer tempDir) ''/nested/'' \<in>
     set (probed (ServeHTTP (NewServer tempDir) (createTestFiles tempDir) ''/nested/'' start)) \<and>
   candidateC (NewServer tempDir) ''/nested'' \<notin>
     set (probed (ServeHTTP (NewServer tempDir) (createTestFiles tempDir) ''/nested'' start))"
proof -
  define f where "f = \<lparr>contents = ''<html><body>Nested Page</body></html>'',
                        copy_error = None :: (nat \<times> string) option\<rparr>"
  have h1: "''/nested'' \<noteq> []" and h2: "\<not> HasSuffix ''/nested'' ''/''"
    and h2': "HasSuffix ''/nested/'' ''/''"
    by (simp_all add: HasSuffix_def)
  have e: "AddHtmlExtension (config (NewServer tempDir))" by (simp add: server_eval)
  have cb: "candidateB (NewServer tempDir) ''/nested'' = ''/tmp/site/nested.html''"
    by (simp add: path_eval server_eval tempDir_def)
  have cc: "candidateC (NewServer tempDir) ''/nested'' = ''/tmp/site/nested/index.html''"
    by (simp add: path_eval server_eval tempDir_def)
  have h3: "\<not> servable (createTestFiles tempDir) (candidateA (NewServer tempDir) ''/nested'')"
    by (simp add: path_eval fs_eval server_eval)
  have h4: "\<not> servable (createTestFiles tempDir) (candidateB (NewServer tempDir) ''/nested'')"
    by (simp add: path_eval fs_eval server_eval)
  have h3': "\<not> servable (createTestFiles tempDir) (candidateA (NewServer tempDir) ''/nested/'')"
    by (simp add: path_eval fs_eval server_eval)
  have h4': "\<not> servable (createTestFiles tempDir) (candidateB (NewServer tempDir) ''/nested/'')"
    by (simp add: path_eval fs_eval server_eval)
  have h5: "Stat (createTestFiles tempDir) (candidateC (NewServer tempDir) ''/nested'') =
              Inr (FileInfo False)"
    by (simp add: path_eval fs_eval server_eval)
  have h6: "\<not> IsDir (FileInfo False)" by simp
  have h7: "Open (createTestFiles tempDir) (candidateC (NewServer tempDir) ''/nested'') = Inr f"
    by (simp add: path_eval fs_eval server_eval f_def)
  have c: "copied f = ''<html><body>Nested Page</body></html>''"
    by (simp add: copied_def f_def)
  have g: "StatusCode (w (ServeHTTP (NewServer tempDir) (createTestFiles tempDir)
               (''/nested'' @ ''/'') start)) = 200 \<and>
      body (w (ServeHTTP (NewServer tempDir) (createTestFiles tempDir)
               (''/nested'' @ ''/'') start)) = copied f \<and>
      StatusCode (w (ServeHTTP (NewServer tempDir) (createTestFiles tempDir) ''/nested'' start)) =
        404"
    using index_candidate_attempted [THEN conjunct2, THEN mp, of "''/nested''"
        "createTestFiles tempDir" "NewServer tempDir" "FileInfo False" f]
      h1 h2 h3 h4 h5 h6 h7 by blast
  have p1: "candidateC (NewServer tempDir) ''/nested/'' \<in>
     set (probed (ServeHTTP (NewServer tempDir) (createTestFiles tempDir) ''/nested/'' start))"
    using index_candidate_attempted [THEN conjunct1, of "NewServer tempDir" "''/nested/''"
        "createTestFiles tempDir"] h2' h3' h4' by blast
  have p2: "candidateC (NewServer tempDir) ''/nested'' \<notin>
     set (probed (ServeHTTP (NewServer tempDir) (createTestFiles tempDir) ''/nested'' start))"
    using index_candidate_attempted [THEN conjunct1, of "NewServer tempDir" "''/nested''"
        "createTestFiles tempDir"] h2 by blast
  show ?thesis using h1 h2 e cb cc h3 h4 h5 g c p1 p2 by simp
qed

text \<open>
  C3 as stated fails: \<open>/about.html/\<close> ends with a slash, but candidate A,
  \<open>about.html\<close>, is served and the index candidate is never attempted.
\<close>

theorem index_candidate_counterexample:
  "HasSuffix ''/about.html/'' ''/'' \<and>
   candidateC (NewServer tempDir) ''/about.html/'' = ''/tmp/site/about.html/index.html'' \<and>
   probed (ServeHTTP (NewServer tempDir) (createTestFiles tempDir) ''/about.html/'' start) =
     [''/tmp/site/about.html''] \<and>
   candidateC (NewServer tempDir) ''/about.html/'' \<notin>
     set (probed (ServeHTTP (NewServer tempDir) (createTestFiles tempDir) ''/about.html/'' start))"
proof -
  have 1: "HasSuffix ''/about.html/'' ''/''" by (simp add: HasSuffix_def)
  have 2: "candidateC (NewServer tempDir) ''/about.html/'' = ''/tmp/site/about.html/index.html''"
    by (simp add: path_eval server_eval tempDir_def)
  have 3: "probed (ServeHTTP (NewServer tempDir) (createTestFiles tempDir) ''/about.html/'' start) =
     [''/tmp/site/about.html'']"
    by (simp add: ServeHTTP_probed path_eval fs_eval server_eval)
  show ?thesis using 1 2 3 by simp
qed

text \<open>
  C4 (amended). For a non-empty URL path without a trailing slash and the same path
  with one: whenever candidate A or candidate B can be served (so whenever the path
  with \<open>.html\<close> appended exists and that candidate applies), both requests are
  handled identically, with the same file, the same headers and the same body. When
  neither can be served, the path without the slash serves nothing, and the path with
  the slash serves \<open>index.html\<close> under it if that can be served.
\<close>

theorem trailing_slash_equivalence:
  assumes "urlPath \<noteq> []" and "\<not> HasSuffix urlPath ''/''"
  shows "(servable pl (candidateA s urlPath) \<or>
          AddHtmlExtension (config s) \<and> Ext (request_path urlPath) = [] \<and>
          servable pl (candidateB s urlPath) \<longrightarrow>
            ServeHTTP s pl (urlPath @ ''/'') st = ServeHTTP s pl urlPath st) \<and>
         (\<not> servable pl (candidateA s urlPath) \<and>
          \<not> (AddHtmlExtension (config s) \<and> Ext (request_path urlPath) = [] \<and>
             servable pl (candidateB s urlPath)) \<longrightarrow>
            served (ServeHTTP s pl urlPath start) = [] \<and>
            served (ServeHTTP s pl (urlPath @ ''/'') start) =
              (if servable pl (candidateC s urlPath) then [candidateC s urlPath] else []))"
proof -
  note cs = candidates_append_slash [OF assms]
  have fs: "first_servable pl (candidates s urlPath) \<noteq> None \<longleftrightarrow>
        servable pl (candidateA s urlPath) \<or>
        AddHtmlExtension (config s) \<and> Ext (request_path urlPath) = [] \<and>
        servable pl (candidateB s urlPath)"
    using assms(2) by (auto simp: candidates_def first_servable_def)
  have 1: "ServeHTTP s pl (urlPath @ ''/'') st = ServeHTTP s pl urlPath st"
    if "first_servable pl (candidates s urlPath) \<noteq> None"
  proof -
    define st1 where
      "st1 = Printf (logger s) (''Handling request for: '' @ logged_path urlPath) st"
    obtain b st' where t: "try_all s pl (candidates s urlPath) st1 = (b, st')"
      by (cases "try_all s pl (candidates s urlPath) st1")
    have b: "b" using try_all_fst [of s pl "candidates s urlPath" st1] t that by simp
    show ?thesis
      unfolding ServeHTTP_try_all cs st1_def [symmetric] try_all_append t using b by simp
  qed
  have 2: "served (ServeHTTP s pl urlPath start) = [] \<and>
           served (ServeHTTP s pl (urlPath @ ''/'') start) =
             (if servable pl (candidateC s urlPath) then [candidateC s urlPath] else [])"
    if "first_servable pl (candidates s urlPath) = None"
    using that
    by (simp add: ServeHTTP_served cs(1) first_servable_append) (simp add: first_servable_def)
  show ?thesis using fs 1 2 by blast
qed

text \<open>
  \<open>/about\<close> and \<open>/about/\<close> of the tests, both served \<open>about.html\<close>; \<open>/nested\<close>
  and \<open>/nested/\<close>.
\<close>

theorem trailing_slash_equivalence_witness:
  "''/about'' \<noteq> [] \<and> \<not> HasSuffix ''/about'' ''/'' \<and>
   servable (createTestFiles tempDir) (candidateB (NewServer tempDir) ''/about'') \<and>
   ServeHTTP (NewServer tempDir) (createTestFiles tempDir) (''/about'' @ ''/'') start =
     ServeHTTP (NewServer tempDir) (createTestFiles tempDir) ''/about'' start \<and>
   served (ServeHTTP (NewServer tempDir) (createTestFiles tempDir) ''/about'' start) =
     [''/tmp/site/about.html''] \<and>
   ''/nested'' \<noteq> [] \<and> \<not> HasSuffix ''/nested'' ''/'' \<and>
   served (ServeHTTP (NewServer tempDir) (createTestFiles tempDir) ''/nested'' start) = [] \<and>
   served (ServeHTTP (NewServer tempDir) (createTestFiles tempDir) (''/nested'' @ ''/'') start) =
     [''/tmp/site/nested/index.html'']"
proof -
  have a1: "''/about'' \<noteq> []" and a2: "\<not> HasSuffix ''/about'' ''/''"
    by (simp_all add: HasSuffix_def)
  have n1: "''/nested'' \<noteq> []" and n2: "\<not> HasSuffix ''/nested'' ''/''"
    by (simp_all add: HasSuffix_def)
  have b: "AddHtmlExtension (config (NewServer tempDir)) \<and> Ext (request_path ''/about'') = [] \<and>
           servable (createTestFiles tempDir) (candidateB (NewServer tempDir) ''/about'')"
    by (simp add: path_eval fs_eval server_eval)
  have g1: "ServeHTTP (NewServer tempDir) (createTestFiles tempDir) (''/about'' @ ''/'') start =
     ServeHTTP (NewServer tempDir) (createTestFiles tempDir) ''/about'' start"
    using trailing_slash_equivalence [OF a1 a2, THEN conjunct1, THEN mp, OF disjI2, OF b] .
  have sa: "served (ServeHTTP (NewServer tempDir) (createTestFiles tempDir) ''/about'' start) =
     [''/tmp/site/about.html'']"
    by (simp add: ServeHTTP_served path_eval fs_eval server_eval)
  have nn: "\<not> servable (createTestFiles tempDir) (candidateA (NewServer tempDir) ''/nested'') \<and>
          \<not> (AddHtmlExtension (config (NewServer tempDir)) \<and> Ext (request_path ''/nested'') = [] \<and>
             servable (createTestFiles tempDir) (candidateB (NewServer tempDir) ''/nested''))"
    by (simp add: path_eval fs_eval server_eval)
  have c: "servable (createTestFiles tempDir) (candidateC (NewServer tempDir) ''/nested'')"
    "candidateC (NewServer tempDir) ''/nested'' = ''/tmp/site/nested/index.html''"
    by (simp_all add: path_eval fs_eval server_eval)
  have g2: "served (ServeHTTP (NewServer tempDir) (createTestFiles tempDir) ''/nested'' start) = [] \<and>
   served (ServeHTTP (NewServer tempDir) (createTestFiles tempDir) (''/nested'' @ ''/'') start) =
     [''/tmp/site/nested/index.html'']"
    using trailing_slash_equivalence [OF n1 n2, THEN conjunct2, THEN mp, OF nn] c by simp
  show ?thesis using a1 a2 b g1 sa n1 n2 g2 by blast
qed

text \<open>
  C4 as stated fails where only \<open>nested/index.html\<close> exists: \<open>/nested/\<close> is served
  that file, \<open>/nested\<close> is answered 404.
\<close>

theorem trailing_slash_counterexample:
  "servable (createTestFiles tempDir) ''/tmp/site/nested/index.html'' \<and>
   served (ServeHTTP (NewServer tempDir) (createTestFiles tempDir) ''/nested'' start) = [] \<and>
   StatusCode (w (ServeHTTP (NewServer tempDir) (createTestFiles tempDir) ''/nested'' start)) =
     404 \<and>
   served (ServeHTTP (NewServer tempDir) (createTestFiles tempDir) ''/nested/'' start) =
     [''/tmp/site/nested/index.html''] \<and>
   StatusCode (w (ServeHTTP (NewServer tempDir) (createTestFiles tempDir) ''/nested/'' start)) =
     200"
proof -
  have 1: "servable (createTestFiles tempDir) ''/tmp/site/nested/index.html''"
    by (simp add: path_eval fs_eval)
  have 2: "served (ServeHTTP (NewServer tempDir) (createTestFiles tempDir) ''/nested'' start) = []"
    by (simp add: ServeHTTP_served path_eval fs_eval server_eval)
  have 3: "StatusCode (w (ServeHTTP (NewServer tempDir) (createTestFiles tempDir) ''/nested'' start)) = 404"
    by (simp add: ServeHTTP_w path_eval fs_eval server_eval response_eval)
  have 4: "served (ServeHTTP (NewServer tempDir) (createTestFiles tempDir) ''/nested/'' start) =
     [''/tmp/site/nested/index.html'']"
    by (simp add: ServeHTTP_served path_eval fs_eval server_eval)
  have 5: "StatusCode (w (ServeHTTP (NewServer tempDir) (createTestFiles tempDir) ''/nested/'' start)) = 200"
    by (simp add: ServeHTTP_w path_eval fs_eval server_eval response_eval)
  show ?thesis using 1 2 3 4 5 by blast
qed

text \<open>
  When the root directory is not the empty string, every path that \<open>ServeHTTP\<close> probes
  for a URL path beginning with a slash lies within the root.
\<close>

theorem probes_within_root:
  assumes "RootDir (config s) \<noteq> []" and "is_rooted urlPath"
    and "c \<in> set (probed (ServeHTTP s pl urlPath start))"
  shows "within_root (RootDir (config s)) c"
proof -
  have "c \<in> {candidateA s urlPath, candidateB s urlPath, candidateC s urlPath}"
    using assms(3) probed_subset_candidates set_candidates by blast
  then show ?thesis using candidates_within_root [OF assms(1,2)] by auto
qed

text \<open>
  C5. Every candidate that is probed should lie within the configured root. With the
  root directory of \<open>Config{}\<close>, the empty string, \<open>filepath.Join\<close> ignores the root:
  the request \<open>/etc/passwd\<close> probes and serves the absolute path \<open>/etc/passwd\<close>, which
  is not within the root.
\<close>

theorem empty_root_serves_outside:
  "RootDir (config (NewServerWithConfig zeroConfig)) = [] \<and>
   probed (ServeHTTP (NewServerWithConfig zeroConfig) host_files ''/etc/passwd'' start) =
     [''/etc/passwd''] \<and>
   served (ServeHTTP (NewServerWithConfig zeroConfig) host_files ''/etc/passwd'' start) =
     [''/etc/passwd''] \<and>
   StatusCode (w (ServeHTTP (NewServerWithConfig zeroConfig) host_files ''/etc/passwd'' start)) =
     200 \<and>
   body (w (ServeHTTP (NewServerWithConfig zeroConfig) host_files ''/etc/passwd'' start)) =
     ''root:x:0:0:root:/root:/bin/sh'' \<and>
   \<not> within_root (RootDir (config (NewServerWithConfig zeroConfig))) ''/etc/passwd''"
proof -
  have 1: "RootDir (config (NewServerWithConfig zeroConfig)) = []"
    by (simp add: server_eval host_files_def zeroConfig_def)
  have 2: "probed (ServeHTTP (NewServerWithConfig zeroConfig) host_files ''/etc/passwd'' start) =
     [''/etc/passwd'']"
    by (simp add: ServeHTTP_probed path_eval host_files_def zeroConfig_def fs_eval server_eval)
  have 3: "served (ServeHTTP (NewServerWithConfig zeroConfig) host_files ''/etc/passwd'' start) =
     [''/etc/passwd'']"
    by (simp add: ServeHTTP_served path_eval host_files_def zeroConfig_def fs_eval server_eval)
  have 4: "StatusCode (w (ServeHTTP (NewServerWithConfig zeroConfig) host_files ''/etc/passwd'' start)) = 200"
    by (simp add: ServeHTTP_w path_eval host_files_def zeroConfig_def fs_eval server_eval
            response_eval)
  have 5: "body (w (ServeHTTP (NewServerWithConfig zeroConfig) host_files ''/etc/passwd'' start)) =
     ''root:x:0:0:root:/root:/bin/sh''"
    by (simp add: ServeHTTP_w path_eval host_files_def zeroConfig_def fs_eval server_eval
            response_eval)
  have 6: "\<not> within_root (RootDir (config (NewServerWithConfig zeroConfig))) ''/etc/passwd''"
    by (simp add: within_root_def real_elems_def path_eval host_files_def zeroConfig_def
            server_eval)
  show ?thesis using 1 2 3 4 5 6 by blast
qed

text \<open>
  C6 (amended). A candidate whose \<open>os.Stat\<close> or \<open>os.Open\<close> fails, with whatever
  error, is not served and leaves the response untouched; the response and the sequence
  of candidates probed are those of the filesystem where such a candidate does not
  exist. A failure of \<open>os.Open\<close> is logged when the logger writes to standard output.
\<close>

theorem fs_errors_fall_through:
  "(Stat pl p = Inl err \<or> Open pl p = Inl err \<longrightarrow>
      fst (tryServeFile s pl p st) = False \<and> w (snd (tryServeFile s pl p st)) = w st) \<and>
   w (ServeHTTP s pl urlPath st) = w (ServeHTTP s (errors_as_absent pl) urlPath st) \<and>
   probed (ServeHTTP s pl urlPath start) =
     probed (ServeHTTP s (errors_as_absent pl) urlPath start) \<and>
   (logger s = StdoutLogger \<and> c \<in> set (probed (ServeHTTP s pl urlPath start)) \<and>
    Stat pl c = Inr info \<and> \<not> IsDir info \<and> Open pl c = Inl err \<longrightarrow>
      (''Error opening file '' @ c @ '': '' @ PathError ''open'' c err)
        \<in> set (log_lines (ServeHTTP s pl urlPath start)))"
proof -
  have 1: "Stat pl p = Inl err \<or> Open pl p = Inl err \<longrightarrow>
      fst (tryServeFile s pl p st) = False \<and> w (snd (tryServeFile s pl p st)) = w st"
    by (auto simp: tryServeFile_fst tryServeFile_w servable_def split: sum.splits)
  have 2: "w (ServeHTTP s pl urlPath st) = w (ServeHTTP s (errors_as_absent pl) urlPath st)"
    by (simp add: ServeHTTP_w first_servable_errors_as_absent serve_response_errors_as_absent
        split: option.splits)
  have 3: "probed (ServeHTTP s pl urlPath start) =
     probed (ServeHTTP s (errors_as_absent pl) urlPath start)"
    by (simp add: ServeHTTP_probed first_servable_errors_as_absent servable_errors_as_absent)
  have 4: "logger s = StdoutLogger \<and> c \<in> set (probed (ServeHTTP s pl urlPath start)) \<and>
    Stat pl c = Inr info \<and> \<not> IsDir info \<and> Open pl c = Inl err \<longrightarrow>
      (''Error opening file '' @ c @ '': '' @ PathError ''open'' c err)
        \<in> set (log_lines (ServeHTTP s pl urlPath start))"
  proof
    assume a: "logger s = StdoutLogger \<and> c \<in> set (probed (ServeHTTP s pl urlPath start)) \<and>
      Stat pl c = Inr info \<and> \<not> IsDir info \<and> Open pl c = Inl err"
    then have ns: "\<not> servable pl c" by (simp add: servable_def)
    have "c \<in> set (takeWhile (\<lambda>c. \<not> servable pl c) (candidates s urlPath))"
      using a ns first_servable_Some [of pl "candidates s urlPath"]
      by (auto simp: ServeHTTP_probed split: option.splits)
    then have "set (failed_log s pl c) \<subseteq> set (log_lines (ServeHTTP s pl urlPath start))"
      by (rule failed_log_in_log)
    moreover have "failed_log s pl c =
        [''Error opening file '' @ c @ '': '' @ PathError ''open'' c err]"
      using a by (simp add: failed_log_def lines_of_def)
    ultimately show "(''Error opening file '' @ c @ '': '' @ PathError ''open'' c err)
        \<in> set (log_lines (ServeHTTP s pl urlPath start))" by simp
  qed
  show ?thesis using 1 2 3 4 by blast
qed

text \<open>
  \<open>page\<close> cannot be opened: the error is logged, \<open>page.html\<close> is probed next and
  served.
\<close>

theorem fs_errors_fall_through_witness:
  "Open locked_page ''/tmp/site/page'' = Inl ErrPermission \<and>
   fst (tryServeFile (NewServer tempDir) locked_page ''/tmp/site/page'' start) = False \<and>
   logger (NewServer tempDir) = StdoutLogger \<and>
   probed (ServeHTTP (NewServer tempDir) locked_page ''/page'' start) =
     [''/tmp/site/page'', ''/tmp/site/page.html''] \<and>
   Stat locked_page ''/tmp/site/page'' = Inr (FileInfo False) \<and>
   ''Error opening file /tmp/site/page: open /tmp/site/page: permission denied''
     \<in> set (log_lines (ServeHTTP (NewServer tempDir) locked_page ''/page'' start)) \<and>
   StatusCode (w (ServeHTTP (NewServer tempDir) locked_page ''/page'' start)) = 200"
proof -
  have o: "Open locked_page ''/tmp/site/page'' = Inl ErrPermission"
    by (simp add: path_eval locked_page_def fs_eval)
  have st: "Stat locked_page ''/tmp/site/page'' = Inr (FileInfo False)"
    by (simp add: path_eval locked_page_def fs_eval)
  have l: "logger (NewServer tempDir) = StdoutLogger" by (simp add: server_eval locked_page_def)
  have p: "probed (ServeHTTP (NewServer tempDir) locked_page ''/page'' start) =
     [''/tmp/site/page'', ''/tmp/site/page.html'']"
    by (simp add: ServeHTTP_probed path_eval locked_page_def fs_eval server_eval)
  have g1: "fst (tryServeFile (NewServer tempDir) locked_page ''/tmp/site/page'' start) = False"
    using fs_errors_fall_through [THEN conjunct1, THEN mp, OF disjI2, OF o] by simp
  have h: "logger (NewServer tempDir) = StdoutLogger \<and>
    ''/tmp/site/page'' \<in> set (probed (ServeHTTP (NewServer tempDir) locked_page ''/page'' start)) \<and>
    Stat locked_page ''/tmp/site/page'' = Inr (FileInfo False) \<and> \<not> IsDir (FileInfo False) \<and>
    Open locked_page ''/tmp/site/page'' = Inl ErrPermission"
    using l p st o by simp
  have g2: "''Error opening file /tmp/site/page: open /tmp/site/page: permission denied''
     \<in> set (log_lines (ServeHTTP (NewServer tempDir) locked_page ''/page'' start))"
    using fs_errors_fall_through [THEN conjunct2, THEN conjunct2, THEN conjunct2, THEN mp, OF h]
    by (simp add: PathError_def)
  have g3: "StatusCode (w (ServeHTTP (NewServer tempDir) locked_page ''/page'' start)) = 200"
    by (simp add: ServeHTTP_w path_eval locked_page_def fs_eval server_eval response_eval)
  show ?thesis using o g1 l p st g2 g3 by blast
qed

text \<open>
  C6 as stated fails: a permission error of \<open>os.Stat\<close> leaves no line in the log of a
  server that logs, and a server built with logging disabled logs no error at all.
\<close>

theorem stat_error_not_logged:
  "Stat denied_stat ''/tmp/site/secret'' = Inl ErrPermission \<and>
   logger (NewServer tempDir) = StdoutLogger \<and>
   probed (ServeHTTP (NewServer tempDir) denied_stat ''/secret'' start) =
     [''/tmp/site/secret'', ''/tmp/site/secret.html''] \<and>
   log_lines (ServeHTTP (NewServer tempDir) denied_stat ''/secret'' start) =
     [''Handling request for: /secret'', ''Not found: /secret''] \<and>
   Open locked_page ''/tmp/site/page'' = Inl ErrPermission \<and>
   logger (NewServerWithConfig (customConfig tempDir)) = DiscardLogger \<and>
   probed (ServeHTTP (NewServerWithConfig (customConfig tempDir)) locked_page ''/page'' start) =
     [''/tmp/site/page''] \<and>
   log_lines (ServeHTTP (NewServerWithConfig (customConfig tempDir)) locked_page ''/page'' start) =
     []"
proof -
  have 1: "Stat denied_stat ''/tmp/site/secret'' = Inl ErrPermission"
    by (simp add: path_eval locked_page_def denied_stat_def fs_eval)
  have 2: "logger (NewServer tempDir) = StdoutLogger"
    by (simp add: server_eval locked_page_def denied_stat_def)
  have 3: "probed (ServeHTTP (NewServer tempDir) denied_stat ''/secret'' start) =
     [''/tmp/site/secret'', ''/tmp/site/secret.html'']"
    by (simp add: ServeHTTP_probed path_eval locked_page_def denied_stat_def fs_eval server_eval)
  have 4: "log_lines (ServeHTTP (NewServer tempDir) denied_stat ''/secret'' start) =
     [''Handling request for: /secret'', ''Not found: /secret'']"
    by (simp add: ServeHTTP_log path_eval locked_page_def denied_stat_def fs_eval server_eval
            failed_log_def lines_of_def
        start_def)
  have 5: "Open locked_page ''/tmp/site/page'' = Inl ErrPermission"
    by (simp add: path_eval locked_page_def denied_stat_def fs_eval)
  have 6: "logger (NewServerWithConfig (customConfig tempDir)) = DiscardLogger"
    by (simp add: server_eval locked_page_def denied_stat_def)
  have 7: "probed (ServeHTTP (NewServerWithConfig (customConfig tempDir)) locked_page ''/page'' start) =
     [''/tmp/site/page'']"
    by (simp add: ServeHTTP_probed path_eval locked_page_def denied_stat_def fs_eval server_eval)
  have 8: "log_lines (ServeHTTP (NewServerWithConfig (customConfig tempDir)) locked_page ''/page'' start) = []"
    by (simp add: ServeHTTP_log path_eval locked_page_def denied_stat_def fs_eval server_eval
            failed_log_def lines_of_def
        start_def)
  show ?thesis using 1 2 3 4 5 6 7 8 by blast
qed

text \<open>
  C7. When every candidate fails, the response has status 404; with a not-found handler
  configured its body is exactly what the handler returns for the request path (cleaned,
  without trailing slash), and without one it is the body of \<open>http.NotFound\<close>,
  \<open>404 page not found\<close> and a newline.
\<close>

theorem not_found_response:
  assumes "first_servable pl (candidates s urlPath) = None"
  shows "status (w (ServeHTTP s pl urlPath start)) = Some 404 \<and>
         body (w (ServeHTTP s pl urlPath start)) =
           (case NotFoundHandler (config s) of
              Some handler \<Rightarrow> handler (request_path urlPath)
            | None \<Rightarrow> ''404 page not found'' @ [CHR 0x0A])"
  using assms
  by (simp add: ServeHTTP_w status_not_found_w body_not_found_w start_def NewRecorder_def)

text \<open>
  The two not-found tests of \<open>server_test.go\<close>: \<open>/nonexistent\<close> with the custom handler
  and with the default server.
\<close>

theorem not_found_response_witness:
  "first_servable (createTestFiles tempDir)
     (candidates (NewServerWithConfig (customConfig tempDir)) ''/nonexistent'') = None \<and>
   status (w (ServeHTTP (NewServerWithConfig (customConfig tempDir)) (createTestFiles tempDir)
                ''/nonexistent'' start)) = Some 404 \<and>
   body (w (ServeHTTP (NewServerWithConfig (customConfig tempDir)) (createTestFiles tempDir)
              ''/nonexistent'' start)) = ''Custom 404: /nonexistent not found'' \<and>
   first_servable (createTestFiles tempDir) (candidates (NewServer tempDir) ''/nonexistent'') =
     None \<and>
   body (w (ServeHTTP (NewServer tempDir) (createTestFiles tempDir) ''/nonexistent'' start)) =
     ''404 page not found'' @ [CHR 0x0A]"
proof -
  have h1: "first_servable (createTestFiles tempDir)
     (candidates (NewServerWithConfig (customConfig tempDir)) ''/nonexistent'') = None"
    by (simp add: path_eval fs_eval server_eval)
  have h2: "first_servable (createTestFiles tempDir)
     (candidates (NewServer tempDir) ''/nonexistent'') = None"
    by (simp add: path_eval fs_eval server_eval)
  have r: "request_path ''/nonexistent'' = ''/nonexistent''" by (simp add: path_eval)
  show ?thesis
    using h1 h2 not_found_response [OF h1] not_found_response [OF h2]
    by (simp add: r server_eval customNotFound_def)
qed



text \<open>
  C9. When the URL path cleans to \<open>/\<close> and every candidate fails, the not-found
  handler is called with \<open>/index.html\<close>, not with \<open>/\<close>: the body of the 404 response
  is what the handler returns for \<open>/index.html\<close>.
\<close>

theorem root_not_found_path:
  assumes "Clean urlPath = ''/''"
      and "first_servable pl (candidates s urlPath) = None"
      and "NotFoundHandler (config s) = Some handler"
  shows "request_path urlPath = ''/index.html'' \<and>
         status (w (ServeHTTP s pl urlPath start)) = Some 404 \<and>
         body (w (ServeHTTP s pl urlPath start)) = handler ''/index.html''"
proof -
  have r: "request_path urlPath = ''/index.html''"
    using assms(1) by (simp add: request_path_eq logged_path_def)
  show ?thesis
    using assms(2,3) r
    by (simp add: ServeHTTP_w status_not_found_w body_not_found_w start_def NewRecorder_def)
qed

text \<open>A request for \<open>/\<close> on an empty filesystem, with the handler of the tests.\<close>

theorem root_not_found_path_witness:
  "Clean ''/'' = ''/'' \<and>
   first_servable (fs_with []) (candidates (NewServerWithConfig (customConfig tempDir)) ''/'') =
     None \<and>
   NotFoundHandler (config (NewServerWithConfig (customConfig tempDir))) = Some customNotFound \<and>
   body (w (ServeHTTP (NewServerWithConfig (customConfig tempDir)) (fs_with []) ''/'' start)) =
     ''Custom 404: /index.html not found''"
proof -
  have h1: "Clean ''/'' = ''/''" by (simp add: path_eval)
  have h2: "first_servable (fs_with [])
     (candidates (NewServerWithConfig (customConfig tempDir)) ''/'') = None"
    by (simp add: path_eval fs_eval server_eval)
  have h3: "NotFoundHandler (config (NewServerWithConfig (customConfig tempDir))) =
     Some customNotFound"
    by (simp add: server_eval)
  show ?thesis
    using h1 h2 h3 root_not_found_path [OF h1 h2 h3]
    by (simp add: customNotFound_def)
qed

text \<open>
  C10. When \<open>os.Stat\<close> reports a file that is no directory and \<open>os.Open\<close>
  succeeds, \<open>tryServeFile\<close> returns true, whether or not the copy to the response
  fails. So once \<open>ServeHTTP\<close> has opened a file, the copy and the close of that file
  are its last filesystem calls: no later candidate is tried, and the status is 200, not
  404, with the bytes that were copied as the body.
\<close>

theorem served_once_opened:
  "(Stat pl p = Inr info \<and> \<not> IsDir info \<and> Open pl p = Inr f \<longrightarrow>
      fst (tryServeFile s pl p st) = True) \<and>
   (CallOpen p \<in> set (fs_calls (ServeHTTP s pl urlPath start)) \<and> Open pl p = Inr f \<longrightarrow>
      (\<exists>before. fs_calls (ServeHTTP s pl urlPath start) =
                 before @ [CallOpen p, CallCopy p, CallClose p]) \<and>
      StatusCode (w (ServeHTTP s pl urlPath start)) = 200 \<and>
      body (w (ServeHTTP s pl urlPath start)) = copied f)"
proof -
  have 1: "Stat pl p = Inr info \<and> \<not> IsDir info \<and> Open pl p = Inr f \<longrightarrow>
      fst (tryServeFile s pl p st) = True"
    by (simp add: tryServeFile_fst servable_def)
  have 2: "CallOpen p \<in> set (fs_calls (ServeHTTP s pl urlPath start)) \<and> Open pl p = Inr f \<longrightarrow>
      (\<exists>before. fs_calls (ServeHTTP s pl urlPath start) =
                 before @ [CallOpen p, CallCopy p, CallClose p]) \<and>
      StatusCode (w (ServeHTTP s pl urlPath start)) = 200 \<and>
      body (w (ServeHTTP s pl urlPath start)) = copied f"
  proof
    assume a: "CallOpen p \<in> set (fs_calls (ServeHTTP s pl urlPath start)) \<and> Open pl p = Inr f"
    then have fs: "first_servable pl (candidates s urlPath) = Some p"
      using CallOpen_served by blast
    have "fs_calls (ServeHTTP s pl urlPath start) =
            (concat (map (failed_calls pl)
               (takeWhile (\<lambda>c. \<not> servable pl c) (candidates s urlPath))) @ [CallStat p]) @
            [CallOpen p, CallCopy p, CallClose p]"
      using fs by (simp add: ServeHTTP_calls start_def served_calls_def)
    then have c: "\<exists>before. fs_calls (ServeHTTP s pl urlPath start) =
                 before @ [CallOpen p, CallCopy p, CallClose p]" by blast
    have st: "StatusCode (w (ServeHTTP s pl urlPath start)) = 200"
      using fs by (simp add: ServeHTTP_w StatusCode_serve_response start_def NewRecorder_def)
    have b: "body (w (ServeHTTP s pl urlPath start)) = copied f"
      using fs a by (simp add: ServeHTTP_w body_serve_response start_def NewRecorder_def)
    show "(\<exists>before. fs_calls (ServeHTTP s pl urlPath start) =
                 before @ [CallOpen p, CallCopy p, CallClose p]) \<and>
      StatusCode (w (ServeHTTP s pl urlPath start)) = 200 \<and>
      body (w (ServeHTTP s pl urlPath start)) = copied f"
      using c st b by blast
  qed
  show ?thesis using 1 2 by blast
qed

text \<open>
  The copy of \<open>data\<close> fails after four bytes; the request \<open>/data\<close> is answered 200
  with these four bytes and \<open>data.html\<close> is not tried.
\<close>

theorem served_once_opened_witness:
  "Stat failing_copy ''/tmp/site/data'' = Inr (FileInfo False) \<and>
   Open failing_copy ''/tmp/site/data'' =
     Inr \<lparr>contents = ''0123456789'',
          copy_error = Some (4, ''read /tmp/site/data: input/output error'')\<rparr> \<and>
   fst (tryServeFile (NewServer tempDir) failing_copy ''/tmp/site/data'' start) = True \<and>
   candidates (NewServer tempDir) ''/data'' = [''/tmp/site/data'', ''/tmp/site/data.html''] \<and>
   CallOpen ''/tmp/site/data'' \<in>
     set (fs_calls (ServeHTTP (NewServer tempDir) failing_copy ''/data'' start)) \<and>
   (\<exists>before. fs_calls (ServeHTTP (NewServer tempDir) failing_copy ''/data'' start) =
      before @ [CallOpen ''/tmp/site/data'', CallCopy ''/tmp/site/data'',
                CallClose ''/tmp/site/data'']) \<and>
   probed (ServeHTTP (NewServer tempDir) failing_copy ''/data'' start) = [''/tmp/site/data''] \<and>
   StatusCode (w (ServeHTTP (NewServer tempDir) failing_copy ''/data'' start)) = 200 \<and>
   body (w (ServeHTTP (NewServer tempDir) failing_copy ''/data'' start)) = ''0123''"
proof -
  define f where "f = \<lparr>contents = ''0123456789'',
          copy_error = Some (4::nat, ''read /tmp/site/data: input/output error'')\<rparr>"
  have h1: "Stat failing_copy ''/tmp/site/data'' = Inr (FileInfo False)"
    by (simp add: failing_copy_def path_eval fs_eval)
  have h2: "Open failing_copy ''/tmp/site/data'' = Inr f"
    by (simp add: failing_copy_def path_eval fs_eval f_def)
  have cs: "candidates (NewServer tempDir) ''/data'' = [''/tmp/site/data'', ''/tmp/site/data.html'']"
    by (simp add: path_eval server_eval tempDir_def)
  have h3: "CallOpen ''/tmp/site/data'' \<in>
     set (fs_calls (ServeHTTP (NewServer tempDir) failing_copy ''/data'' start))"
    by (simp add: ServeHTTP_calls failing_copy_def path_eval fs_eval server_eval served_calls_def
        failed_calls_def start_def)
  have p: "probed (ServeHTTP (NewServer tempDir) failing_copy ''/data'' start) =
     [''/tmp/site/data'']"
    by (simp add: ServeHTTP_probed failing_copy_def path_eval fs_eval server_eval)
  have c: "copied f = ''0123''" by (simp add: copied_def f_def)
  have g1: "fst (tryServeFile (NewServer tempDir) failing_copy ''/tmp/site/data'' start) = True"
    using served_once_opened [THEN conjunct1, THEN mp, of failing_copy "''/tmp/site/data''"
        "FileInfo False" f] h1 h2 by simp
  have g2: "(\<exists>before. fs_calls (ServeHTTP (NewServer tempDir) failing_copy ''/data'' start) =
      before @ [CallOpen ''/tmp/site/data'', CallCopy ''/tmp/site/data'',
                CallClose ''/tmp/site/data'']) \<and>
   StatusCode (w (ServeHTTP (NewServer tempDir) failing_copy ''/data'' start)) = 200 \<and>
   body (w (ServeHTTP (NewServer tempDir) failing_copy ''/data'' start)) = copied f"
    using served_once_opened [THEN conjunct2, THEN mp, OF conjI [OF h3 h2]] .
  show ?thesis using h1 h2 g1 cs h3 g2 p c unfolding f_def by simp
qed

end
